(* ===== verification/Kernel_Prelude.thy ===== *)
theory Kernel_Prelude
  imports Main "HOL-Library.Word"
begin

text \<open>
  Shared vocabulary of the development: the machine integers of the kernel's target
  (\<^verbatim>\<open>x86_64-microkernel.json\<close>: 64-bit pointers), the outcome of a computation that may
  panic, overflow-checked arithmetic, and the generic lemmas the components share.

  Rust arithmetic is modelled with overflow checks on, the setting of the \<^verbatim>\<open>dev\<close> profile of
  \<^verbatim>\<open>Cargo.toml\<close> (neither profile overrides it): an addition that does not fit is a panic.
  Where a theorem says that a definition never panics, no addition of it overflows, so a
  build without overflow checks computes the same values.
\<close>

unbundle bit_operations_syntax

section \<open>Machine integers\<close>

type_synonym u8 = "8 word"
type_synonym u16 = "16 word"
type_synonym u32 = "32 word"
type_synonym u64 = "64 word"

text \<open>\<^verbatim>\<open>usize\<close> used as a length or an offset is a natural number; its bound is written out.\<close>

type_synonym usize = nat

definition usize_bound :: nat where
  "usize_bound = 2 ^ 64"

text \<open>The longest slice Rust allows (\<^verbatim>\<open>isize::MAX\<close> bytes).\<close>

definition isize_max :: nat where
  "isize_max = 2 ^ 63 - 1"

section \<open>Outcomes: a value, or a kernel panic\<close>

text \<open>
  \<^verbatim>\<open>panic = "abort"\<close> in both profiles: a panic runs \<^verbatim>\<open>main.rs::panic\<close>, which prints and halts
  forever, so nothing after it is observable. \<open>Hang\<close> is not a Rust panic: it stands for a loop
  whose exit depends on a device or on a library and that has not left it within the number of
  iterations the model was given; a theorem that a result is \<open>Done\<close> excludes it too.
\<close>

datatype panic =
    ArithOverflow
  | IndexOutOfBounds
  | SliceOutOfRange
  | UnwrapFailed
  | AllocError
  | Explicit
  | Hang

datatype 'a outcome = Done 'a | Panic panic

fun obind :: "'a outcome \<Rightarrow> ('a \<Rightarrow> 'b outcome) \<Rightarrow> 'b outcome" where
  "obind (Done x) f = f x"
| "obind (Panic p) f = Panic p"

fun panics :: "'a outcome \<Rightarrow> bool" where
  "panics (Done x) = False"
| "panics (Panic p) = True"

named_theorems outcome_simps \<open>rewriting of outcome computations\<close>

lemma obind_cong [fundef_cong]:
  assumes "m = m'" and "\<And>x. m' = Done x \<Longrightarrow> f x = f' x"
  shows "obind m f = obind m' f'"
  using assms by (cases m') auto

lemma obind_assoc [outcome_simps]: "obind (obind m f) g = obind m (\<lambda>x. obind (f x) g)"
  by (cases m) auto

lemma obind_Done_iff [outcome_simps]:
  "obind m f = Done y \<longleftrightarrow> (\<exists>x. m = Done x \<and> f x = Done y)"
  by (cases m) auto

lemma obind_Panic_iff:
  "obind m f = Panic p \<longleftrightarrow> m = Panic p \<or> (\<exists>x. m = Done x \<and> f x = Panic p)"
  by (cases m) auto

lemma map_outcome_obind: "map_outcome g m = obind m (\<lambda>x. Done (g x))"
  by (cases m) auto

lemma map_outcome_Done_iff [outcome_simps]:
  "map_outcome g m = Done y \<longleftrightarrow> (\<exists>x. m = Done x \<and> y = g x)"
  by (cases m) auto

lemma not_panics_iff [outcome_simps]: "\<not> panics m \<longleftrightarrow> (\<exists>x. m = Done x)"
  by (cases m) auto

lemma not_panicsE: "\<not> panics m \<Longrightarrow> (\<And>x. m = Done x \<Longrightarrow> P) \<Longrightarrow> P"
  by (cases m) auto

lemma panics_obind [outcome_simps]:
  "panics (obind m f) \<longleftrightarrow> panics m \<or> (\<exists>x. m = Done x \<and> panics (f x))"
  by (cases m) auto

text \<open>\<^verbatim>\<open>iter().any(p)\<close> with a predicate that may panic: stops at the first match.\<close>

fun any_outcome :: "('a \<Rightarrow> bool outcome) \<Rightarrow> 'a list \<Rightarrow> bool outcome" where
  "any_outcome p [] = Done False"
| "any_outcome p (x # xs) = obind (p x) (\<lambda>b. if b then Done True else any_outcome p xs)"

lemma any_outcome_pure [outcome_simps]:
  "any_outcome (\<lambda>x. Done (p x)) xs = Done (\<exists>x \<in> set xs. p x)"
  by (induction xs) auto

lemma any_outcome_Done_True:
  "any_outcome p xs = Done True \<Longrightarrow> \<exists>x \<in> set xs. p x = Done True"
  by (induction xs) (auto simp: obind_Done_iff split: if_splits)

lemma any_outcome_Done_False:
  "any_outcome p xs = Done False \<Longrightarrow> x \<in> set xs \<Longrightarrow> p x = Done False"
  by (induction xs) (auto simp: obind_Done_iff split: if_splits)

lemma any_outcome_total:
  "(\<And>x. x \<in> set xs \<Longrightarrow> p x = Done (q x)) \<Longrightarrow> any_outcome p xs = Done (\<exists>x \<in> set xs. q x)"
  by (induction xs) auto

text \<open>A \<^verbatim>\<open>for\<close> loop over a list whose body may panic.\<close>

fun for_each :: "('a \<Rightarrow> 's \<Rightarrow> 's outcome) \<Rightarrow> 'a list \<Rightarrow> 's \<Rightarrow> 's outcome" where
  "for_each body [] s = Done s"
| "for_each body (x # xs) s = obind (body x s) (for_each body xs)"

lemma for_each_append: "for_each body (xs @ ys) s = obind (for_each body xs s) (for_each body ys)"
proof (induction xs arbitrary: s)
  case Nil
  then show ?case by simp
next
  case (Cons x xs)
  then show ?case by (cases "body x s") simp_all
qed

lemma for_each_invariant:
  assumes "P s" and "\<And>x s. x \<in> set xs \<Longrightarrow> P s \<Longrightarrow> \<exists>s'. body x s = Done s' \<and> P s'"
  shows "\<exists>s'. for_each body xs s = Done s' \<and> P s'"
  using assms
proof (induction xs arbitrary: s)
  case Nil
  then show ?case by simp
next
  case (Cons x xs)
  from Cons.prems(2) [of x s] Cons.prems(1) obtain s1 where s1: "body x s = Done s1" "P s1"
    by auto
  from Cons.IH [OF s1(2)] Cons.prems(2) show ?case by (simp add: s1(1))
qed

section \<open>Overflow-checked arithmetic\<close>

definition usize_add :: "usize \<Rightarrow> usize \<Rightarrow> usize outcome" where
  "usize_add a b = (if a + b < usize_bound then Done (a + b) else Panic ArithOverflow)"

definition usize_sub :: "usize \<Rightarrow> usize \<Rightarrow> usize outcome" where
  "usize_sub a b = (if b \<le> a then Done (a - b) else Panic ArithOverflow)"

definition usize_mul :: "usize \<Rightarrow> usize \<Rightarrow> usize outcome" where
  "usize_mul a b = (if a * b < usize_bound then Done (a * b) else Panic ArithOverflow)"

definition word_add :: "'n::len word \<Rightarrow> 'n word \<Rightarrow> 'n word outcome" where
  "word_add a b =
     (if unat a + unat b < 2 ^ LENGTH('n) then Done (a + b) else Panic ArithOverflow)"

definition word_mul :: "'n::len word \<Rightarrow> 'n word \<Rightarrow> 'n word outcome" where
  "word_mul a b =
     (if unat a * unat b < 2 ^ LENGTH('n) then Done (a * b) else Panic ArithOverflow)"

definition word_sub :: "'n::len word \<Rightarrow> 'n word \<Rightarrow> 'n word outcome" where
  "word_sub a b = (if b \<le> a then Done (a - b) else Panic ArithOverflow)"

lemma usize_add_Done [simp]: "a + b < usize_bound \<Longrightarrow> usize_add a b = Done (a + b)"
  by (simp add: usize_add_def)

lemma usize_sub_Done [simp]: "b \<le> a \<Longrightarrow> usize_sub a b = Done (a - b)"
  by (simp add: usize_sub_def)

lemma usize_mul_Done [simp]: "a * b < usize_bound \<Longrightarrow> usize_mul a b = Done (a * b)"
  by (simp add: usize_mul_def)

lemma usize_add_Done_iff [outcome_simps]:
  "usize_add a b = Done c \<longleftrightarrow> a + b < usize_bound \<and> c = a + b"
  by (auto simp: usize_add_def)

lemma word_sub_Done_iff [outcome_simps]: "word_sub a b = Done c \<longleftrightarrow> b \<le> a \<and> c = a - b"
  by (auto simp: word_sub_def)

lemma word_add_Done_iff [outcome_simps]:
  fixes a b :: "'n::len word"
  shows "word_add a b = Done c \<longleftrightarrow> unat a + unat b < 2 ^ LENGTH('n) \<and> c = a + b"
  by (auto simp: word_add_def)

lemma unat_u8_less [simp]: "unat (b :: u8) < 256"
  using unsigned_less [of b, where ?'a = nat] by simp

lemma unat_u16_less [simp]: "unat (w :: u16) < 65536"
  using unsigned_less [of w, where ?'a = nat] by simp

lemma unat_u32_less [simp]: "unat (w :: u32) < 4294967296"
  using unsigned_less [of w, where ?'a = nat] by simp

lemma unat_add_no_overflow:
  fixes a b :: "'n::len word"
  assumes "unat a + unat b < 2 ^ LENGTH('n)"
  shows "unat (a + b) = unat a + unat b"
  using assms by (simp add: unat_word_ariths)

lemma unat_plus_one:
  fixes a :: "'n::len word"
  assumes "unat a + 1 < 2 ^ LENGTH('n)"
  shows "unat (a + 1) = unat a + 1"
  using unat_add_no_overflow [of a 1] assms by simp

lemma word_less_plus_one:
  fixes a :: "'n::len word"
  assumes "unat a + 1 < 2 ^ LENGTH('n)"
  shows "a < a + 1"
  using unat_plus_one [OF assms] by (simp add: word_less_nat_alt)

text \<open>Rounding down to a multiple of a power of two: \<^verbatim>\<open>n & !mask\<close>.\<close>

lemma and_not_mask:
  fixes w :: "'n::len word"
  shows "w AND NOT (mask k) = push_bit k (drop_bit k w)"
  by (rule bit_word_eqI) (auto simp: bit_simps)

lemma unat_and_not_mask:
  fixes w :: "'n::len word"
  shows "unat (w AND NOT (mask k)) = unat w div 2 ^ k * 2 ^ k"
proof -
  have "unat w div 2 ^ k * 2 ^ k \<le> unat w" by simp
  also have "\<dots> < 2 ^ LENGTH('n)" using unsigned_less [of w, where ?'a = nat] by simp
  finally have small: "unat w div 2 ^ k * 2 ^ k < 2 ^ LENGTH('n)" .
  have "unat (push_bit k (drop_bit k w)) = take_bit LENGTH('n) (push_bit k (drop_bit k (unat w)))"
    unfolding unsigned_push_bit_eq unat_drop_bit_eq by simp
  also have "push_bit k (drop_bit k (unat w)) = unat w div 2 ^ k * 2 ^ k"
    by (simp add: push_bit_eq_mult drop_bit_eq_div)
  also have "take_bit LENGTH('n) (unat w div 2 ^ k * 2 ^ k) = unat w div 2 ^ k * 2 ^ k"
    using small by (simp add: take_bit_eq_mod)
  finally show ?thesis unfolding and_not_mask .
qed

section \<open>Slices\<close>

text \<open>
  \<^verbatim>\<open>xs[i]\<close> and \<^verbatim>\<open>&xs[a..b]\<close> panic out of range; in range they are \<open>nth\<close> and a
  \<open>take\<close> of a \<open>drop\<close>.
\<close>

definition index :: "'a list \<Rightarrow> usize \<Rightarrow> 'a outcome" where
  "index xs i = (if i < length xs then Done (xs ! i) else Panic IndexOutOfBounds)"

definition slice_range :: "'a list \<Rightarrow> usize \<Rightarrow> usize \<Rightarrow> 'a list outcome" where
  "slice_range xs a b =
     (if a \<le> b \<and> b \<le> length xs then Done (take (b - a) (drop a xs)) else Panic SliceOutOfRange)"

lemma index_Done [simp]: "i < length xs \<Longrightarrow> index xs i = Done (xs ! i)"
  by (simp add: index_def)

lemma index_Done_iff [outcome_simps]: "index xs i = Done x \<longleftrightarrow> i < length xs \<and> x = xs ! i"
  by (auto simp: index_def)

lemma slice_Done [simp]:
  "a \<le> b \<Longrightarrow> b \<le> length xs \<Longrightarrow> slice_range xs a b = Done (take (b - a) (drop a xs))"
  by (simp add: slice_range_def)

lemma slice_Done_iff [outcome_simps]:
  "slice_range xs a b = Done ys \<longleftrightarrow> a \<le> b \<and> b \<le> length xs \<and> ys = take (b - a) (drop a xs)"
  by (auto simp: slice_range_def)

text \<open>\<^verbatim>\<open>iter().position(p).unwrap_or(d)\<close> over a list whose length is the default.\<close>

fun position :: "('a \<Rightarrow> bool) \<Rightarrow> 'a list \<Rightarrow> usize option" where
  "position p [] = None"
| "position p (x # xs) = (if p x then Some 0 else map_option Suc (position p xs))"

definition unwrap_or :: "'a option \<Rightarrow> 'a \<Rightarrow> 'a" where
  "unwrap_or m d = (case m of None \<Rightarrow> d | Some x \<Rightarrow> x)"

lemma unwrap_or_simps [simp]: "unwrap_or None d = d" "unwrap_or (Some x) d = x"
  by (simp_all add: unwrap_or_def)

lemma position_less: "position p xs = Some i \<Longrightarrow> i < length xs"
  by (induction xs arbitrary: i) (auto split: if_splits)

lemma take_position:
  "take (unwrap_or (position p xs) (length xs)) xs = takeWhile (\<lambda>x. \<not> p x) xs"
  by (induction xs) (auto simp: unwrap_or_def split: option.splits)

lemma unwrap_position_le: "unwrap_or (position p xs) (length xs) \<le> length xs"
  by (auto simp: unwrap_or_def dest: position_less split: option.splits)

section \<open>Sequences of operations\<close>

text \<open>Run a list of operations on a state and collect the answers.\<close>

fun run_ops :: "('o \<Rightarrow> 'q \<Rightarrow> 'r \<times> 'q) \<Rightarrow> 'o list \<Rightarrow> 'q \<Rightarrow> 'r list \<times> 'q" where
  "run_ops step [] q = ([], q)"
| "run_ops step (a # as) q =
     (let (r, q') = step a q; (rs, q'') = run_ops step as q' in (r # rs, q''))"

lemma run_ops_invariant:
  assumes "\<And>a q. P q \<Longrightarrow> P (snd (step a q))" and "P q"
  shows "P (snd (run_ops step as q))"
  using assms(2)
proof (induction as arbitrary: q)
  case Nil
  then show ?case by simp
next
  case (Cons a as)
  then have "P (snd (run_ops step as (snd (step a q))))" using assms(1) by blast
  then show ?case by (cases "step a q") (simp add: case_prod_unfold Let_def)
qed

section \<open>Lists\<close>

text \<open>First element that satisfies a predicate: \<^verbatim>\<open>iter().find(p)\<close>.\<close>

lemma find_append: "List.find p (xs @ ys) = (case List.find p xs of None \<Rightarrow> List.find p ys | Some x \<Rightarrow> Some x)"
  by (induction xs) auto

lemma find_Some_set: "List.find p xs = Some x \<Longrightarrow> x \<in> set xs \<and> p x"
  by (induction xs) (auto split: if_splits)

lemma find_None_set: "List.find p xs = None \<longleftrightarrow> (\<forall>x \<in> set xs. \<not> p x)"
  by (auto simp: find_None_iff)

end
