(* ===== verification/Rust_Std.thy ===== *)
theory Rust_Std
  imports Kernel_Prelude
begin

text \<open>
  What the kernel uses of Rust's \<^verbatim>\<open>core\<close> and \<^verbatim>\<open>alloc\<close>: strings as UTF-8 byte sequences
  (\<^verbatim>\<open>from_utf8\<close>, \<^verbatim>\<open>as_bytes\<close>), prefix and suffix tests, \<^verbatim>\<open>split\<close> and \<^verbatim>\<open>join\<close>, number
  formatting and parsing, and the byte order conversions.

  A Rust \<^verbatim>\<open>str\<close> is a HOL \<open>string\<close> whose characters are its UTF-8 bytes, so \<open>length\<close> is
  \<^verbatim>\<open>str::len\<close> and byte-wise prefixes are \<^verbatim>\<open>starts_with\<close>.
\<close>

section \<open>UTF-8\<close>

definition cont_byte :: "u8 \<Rightarrow> bool" where
  "cont_byte b \<longleftrightarrow> 0x80 \<le> b \<and> b \<le> 0xBF"

text \<open>The well-formed byte sequences \<^verbatim>\<open>core::str::from_utf8\<close> accepts.\<close>

fun valid_utf8 :: "u8 list \<Rightarrow> bool" where
  "valid_utf8 [] = True"
| "valid_utf8 (b # bs) =
     (if b < 0x80 then valid_utf8 bs
      else case bs of
        [] \<Rightarrow> False
      | c # cs \<Rightarrow>
          if 0xC2 \<le> b \<and> b \<le> 0xDF then cont_byte c \<and> valid_utf8 cs
          else case cs of
            [] \<Rightarrow> False
          | d # ds \<Rightarrow>
              if 0xE0 \<le> b \<and> b \<le> 0xEF then
                (if b = 0xE0 then 0xA0 \<le> c \<and> c \<le> 0xBF
                 else if b = 0xED then 0x80 \<le> c \<and> c \<le> 0x9F
                 else cont_byte c) \<and> cont_byte d \<and> valid_utf8 ds
              else case ds of
                [] \<Rightarrow> False
              | e # es \<Rightarrow>
                  0xF0 \<le> b \<and> b \<le> 0xF4 \<and>
                  (if b = 0xF0 then 0x90 \<le> c \<and> c \<le> 0xBF
                   else if b = 0xF4 then 0x80 \<le> c \<and> c \<le> 0x8F
                   else cont_byte c) \<and> cont_byte d \<and> cont_byte e \<and> valid_utf8 es)"

definition as_bytes :: "string \<Rightarrow> u8 list" where
  "as_bytes s = map of_char s"

definition str_of_bytes :: "u8 list \<Rightarrow> string" where
  "str_of_bytes bs = map (\<lambda>b. char_of (unat b)) bs"

definition from_utf8 :: "u8 list \<Rightarrow> string option" where
  "from_utf8 bs = (if valid_utf8 bs then Some (str_of_bytes bs) else None)"

lemma length_as_bytes [simp]: "length (as_bytes s) = length s"
  by (simp add: as_bytes_def)

lemma length_str_of_bytes [simp]: "length (str_of_bytes bs) = length bs"
  by (simp add: str_of_bytes_def)

lemma of_char_char_of_byte: "of_char (char_of (unat (b :: u8))) = b"
proof -
  have "(of_char (char_of (unat b)) :: u8) = of_nat (of_char (char_of (unat b)))"
    by (simp only: of_nat_of_char)
  also have "\<dots> = of_nat (unat b mod 256)"
    by (simp only: of_char_of)
  also have "\<dots> = b"
    using unat_u8_less [of b] by simp
  finally show ?thesis .
qed

lemma char_of_of_char_byte: "char_of (unat (of_char c :: u8)) = c"
proof -
  have "(of_char c :: u8) = of_nat (of_char c)"
    by (simp only: of_nat_of_char)
  moreover have "(of_char c :: nat) < 256"
    by (rule nat_of_char_less_256)
  ultimately have "unat (of_char c :: u8) = of_char c"
    by (simp add: unat_of_nat)
  then show ?thesis by simp
qed

lemma as_bytes_str_of_bytes [simp]: "as_bytes (str_of_bytes bs) = bs"
  by (simp add: as_bytes_def str_of_bytes_def of_char_char_of_byte map_idI)

lemma str_of_bytes_as_bytes [simp]: "str_of_bytes (as_bytes s) = s"
  by (simp add: as_bytes_def str_of_bytes_def char_of_of_char_byte map_idI)

lemma as_bytes_append [simp]: "as_bytes (s @ t) = as_bytes s @ as_bytes t"
  by (simp add: as_bytes_def)

lemma as_bytes_inject [simp]: "as_bytes s = as_bytes t \<longleftrightarrow> s = t"
  by (metis str_of_bytes_as_bytes)

lemma from_utf8_Some_iff: "from_utf8 bs = Some s \<longleftrightarrow> valid_utf8 bs \<and> as_bytes s = bs"
  by (auto simp: from_utf8_def)

lemma valid_utf8_ascii: "(\<And>b. b \<in> set bs \<Longrightarrow> b < 0x80) \<Longrightarrow> valid_utf8 bs"
  by (induction bs) auto

section \<open>Strings\<close>

definition starts_with :: "string \<Rightarrow> string \<Rightarrow> bool" where
  "starts_with s p \<longleftrightarrow> take (length p) s = p"

definition ends_with :: "string \<Rightarrow> string \<Rightarrow> bool" where
  "ends_with s q \<longleftrightarrow> length q \<le> length s \<and> drop (length s - length q) s = q"

lemma starts_with_iff: "starts_with s p \<longleftrightarrow> (\<exists>r. s = p @ r)"
  unfolding starts_with_def by (metis append_eq_conv_conj append_take_drop_id)

lemma starts_with_Nil [simp]: "starts_with s []"
  by (simp add: starts_with_def)

lemma starts_with_refl [simp]: "starts_with s s"
  by (simp add: starts_with_def)

lemma starts_with_append [simp]: "starts_with (p @ r) p"
  by (simp add: starts_with_def)

lemma starts_with_trans: "starts_with s p \<Longrightarrow> starts_with p q \<Longrightarrow> starts_with s q"
  by (auto simp: starts_with_iff)

fun split_on :: "char \<Rightarrow> string \<Rightarrow> string list" where
  "split_on c [] = [[]]"
| "split_on c (x # xs) =
     (if x = c then [] # split_on c xs
      else case split_on c xs of [] \<Rightarrow> [[x]] | w # ws \<Rightarrow> (x # w) # ws)"

fun join :: "string \<Rightarrow> string list \<Rightarrow> string" where
  "join sep [] = []"
| "join sep [s] = s"
| "join sep (s # t # ts) = s @ sep @ join sep (t # ts)"

lemma split_on_not_Nil [simp]: "split_on c s \<noteq> []"
  by (cases s) (auto split: list.splits)

lemma join_split_on: "join [c] (split_on c s) = s"
proof (induction s)
  case Nil
  then show ?case by simp
next
  case (Cons x xs)
  obtain w ws where w: "split_on c xs = w # ws"
    using split_on_not_Nil by (metis neq_Nil_conv)
  with Cons.IH show ?case by (cases ws) auto
qed

lemma split_on_single: "c \<notin> set s \<Longrightarrow> split_on c s = [s]"
  by (induction s) auto

lemma split_on_no_sep: "w \<in> set (split_on c s) \<Longrightarrow> c \<notin> set w"
proof (induction s arbitrary: w)
  case Nil
  then show ?case by simp
next
  case (Cons x xs)
  then show ?case by (cases "split_on c xs") (auto split: if_splits)
qed

section \<open>Numbers as text\<close>

definition digit_char :: "bool \<Rightarrow> nat \<Rightarrow> char" where
  "digit_char upper d =
     (if d < 10 then char_of (48 + d) else char_of ((if upper then 55 else 87) + d))"

function radix_str :: "bool \<Rightarrow> nat \<Rightarrow> nat \<Rightarrow> string" where
  "radix_str upper b n =
     (if n < b \<or> b < 2 then [digit_char upper n]
      else radix_str upper b (n div b) @ [digit_char upper (n mod b)])"
  by pat_completeness auto
termination
  by (relation "measure (\<lambda>(_, b, n). n)") auto

declare radix_str.simps [simp del]

definition pad_zero :: "nat \<Rightarrow> string \<Rightarrow> string" where
  "pad_zero w s = replicate (w - length s) CHR ''0'' @ s"

text \<open>\<^verbatim>\<open>{}\<close>, \<^verbatim>\<open>{:02x}\<close>, \<^verbatim>\<open>{:04X}\<close> and \<^verbatim>\<open>{:#X}\<close> of \<^verbatim>\<open>core::fmt\<close>.\<close>

definition fmt_dec :: "nat \<Rightarrow> string" where
  "fmt_dec n = radix_str False 10 n"

definition fmt_02x :: "u8 \<Rightarrow> string" where
  "fmt_02x b = pad_zero 2 (radix_str False 16 (unat b))"

definition fmt_02X :: "u8 \<Rightarrow> string" where
  "fmt_02X b = pad_zero 2 (radix_str True 16 (unat b))"

definition fmt_04X :: "u16 \<Rightarrow> string" where
  "fmt_04X w = pad_zero 4 (radix_str True 16 (unat w))"

definition fmt_hashX :: "nat \<Rightarrow> string" where
  "fmt_hashX n = ''0x'' @ radix_str True 16 n"

text \<open>\<^verbatim>\<open>usize::from_str_radix(s, 8)\<close>: \<open>None\<close> is an error (empty, a bad digit, overflow).\<close>

definition octal_digit :: "char \<Rightarrow> nat option" where
  "octal_digit c =
     (let n = of_char c in if (48::nat) \<le> n \<and> n < 56 then Some (n - 48) else None)"

fun octal_value :: "usize \<Rightarrow> string \<Rightarrow> usize option" where
  "octal_value acc [] = Some acc"
| "octal_value acc (c # cs) =
     (case octal_digit c of
        None \<Rightarrow> None
      | Some d \<Rightarrow> if acc * 8 + d < usize_bound then octal_value (acc * 8 + d) cs else None)"

definition from_str_radix_8 :: "string \<Rightarrow> usize option" where
  "from_str_radix_8 s =
     (case s of
        [] \<Rightarrow> None
      | c # cs \<Rightarrow>
          if cs = [] \<and> (c = CHR ''+'' \<or> c = CHR ''-'') then None
          else octal_value 0 (if c = CHR ''+'' then cs else s))"

lemma octal_digit_less: "octal_digit c = Some d \<Longrightarrow> d < 8"
  by (auto simp: octal_digit_def Let_def split: if_splits)

lemma octal_value_bound:
  "octal_value acc s = Some v \<Longrightarrow> v < (acc + 1) * 8 ^ length s"
proof (induction s arbitrary: acc)
  case Nil
  then show ?case by simp
next
  case (Cons c cs)
  then obtain d where d: "octal_digit c = Some d" and v: "octal_value (acc * 8 + d) cs = Some v"
    by (auto split: option.splits if_splits)
  have "d < 8" using d by (rule octal_digit_less)
  then have "(acc * 8 + d + 1) * 8 ^ length cs \<le> ((acc + 1) * 8) * 8 ^ length cs"
    by (intro mult_right_mono) auto
  moreover have "v < (acc * 8 + d + 1) * 8 ^ length cs"
    using Cons.IH [OF v] by simp
  ultimately have "v < ((acc + 1) * 8) * 8 ^ length cs" by linarith
  then show ?case by (simp add: algebra_simps)
qed

lemma from_str_radix_8_bound:
  assumes "from_str_radix_8 s = Some v"
  shows "v < 8 ^ length s"
proof (cases s)
  case Nil
  with assms show ?thesis by (simp add: from_str_radix_8_def)
next
  case (Cons c cs)
  consider (plus) "c = CHR ''+''" "octal_value 0 cs = Some v" | (digits) "octal_value 0 s = Some v"
    using assms Cons by (auto simp: from_str_radix_8_def split: if_splits)
  then show ?thesis
  proof cases
    case plus
    have "v < 8 ^ length cs" using octal_value_bound [OF plus(2)] by simp
    also have "\<dots> \<le> 8 ^ length s" using Cons by simp
    finally show ?thesis .
  next
    case digits
    then show ?thesis using octal_value_bound [OF digits] by simp
  qed
qed

section \<open>Byte order\<close>

definition u16_from_be_bytes :: "u8 \<Rightarrow> u8 \<Rightarrow> u16" where
  "u16_from_be_bytes a b = of_nat (unat a * 256 + unat b)"

definition u16_from_le_bytes :: "u8 \<Rightarrow> u8 \<Rightarrow> u16" where
  "u16_from_le_bytes a b = of_nat (unat a + unat b * 256)"

definition u32_to_le_bytes :: "u32 \<Rightarrow> u8 list" where
  "u32_to_le_bytes w =
     [ucast w, ucast (drop_bit 8 w), ucast (drop_bit 16 w), ucast (drop_bit 24 w)]"

definition le_value :: "u8 list \<Rightarrow> nat" where
  "le_value bs = foldr (\<lambda>b n. unat b + 256 * n) bs 0"

lemma unat_u16_from_be_bytes: "unat (u16_from_be_bytes a b) = unat a * 256 + unat b"
proof -
  have "unat a < 256" "unat b < 256" by simp_all
  then have "unat a * 256 + unat b < 65536" by linarith
  then show ?thesis
    unfolding u16_from_be_bytes_def by (subst unat_of_nat) simp
qed

lemma unat_u16_from_le_bytes: "unat (u16_from_le_bytes a b) = unat a + unat b * 256"
proof -
  have "unat a < 256" "unat b < 256" by simp_all
  then have "unat a + unat b * 256 < 65536" by linarith
  then show ?thesis
    unfolding u16_from_le_bytes_def by (subst unat_of_nat) simp
qed

lemma length_u32_to_le_bytes [simp]: "length (u32_to_le_bytes w) = 4"
  by (simp add: u32_to_le_bytes_def)

lemma le_value_u32_to_le_bytes: "le_value (u32_to_le_bytes w) = unat w"
proof -
  have byte: "unat (ucast (drop_bit k w) :: u8) = unat w div 2 ^ k mod 256" for k
    by (simp add: unsigned_ucast_eq unat_drop_bit_eq take_bit_eq_mod del: drop_bit_eq_div)
      (simp add: drop_bit_eq_div)
  have small: "unat w div 256 div 256 div 256 < 256"
    using unat_u32_less [of w] by (simp add: div_mult2_eq [symmetric] less_mult_imp_div_less)
  have split: "n mod 256 + 256 * (n div 256) = n" for n :: nat
    by simp
  have "unat w mod 256 + 256 * (unat w div 256 mod 256 + 256 * (unat w div 256 div 256 mod 256
      + 256 * (unat w div 256 div 256 div 256 mod 256))) = unat w"
    by (simp only: mod_less [OF small] split)
  with byte [of 0] byte [of 8] byte [of 16] byte [of 24] show ?thesis
    by (simp add: le_value_def u32_to_le_bytes_def div_mult2_eq [symmetric])
qed

end
