(* ===== verification/Vga_Buffer.thy ===== *)
theory Vga_Buffer
  imports Rust_Std
begin

text \<open>
  The text console, \<^verbatim>\<open>src/vga_buffer.rs\<close>: a 25 by 80 grid of coloured characters, written at
  the bottom line and scrolled up by copying cell by cell. The volatile cells of \<^verbatim>\<open>0xb8000\<close> are
  the field \<open>w_buffer\<close>; indexing a cell out of range is a panic.
\<close>

section \<open>State and operations\<close>

datatype color =
    Black | Blue | Green | Cyan | Red | Magenta | Brown | LightGray
  | DarkGray | LightBlue | LightGreen | LightCyan | LightRed | Pink | Yellow | White

fun color_u8 :: "color \<Rightarrow> u8" where
  "color_u8 Black = 0" | "color_u8 Blue = 1" | "color_u8 Green = 2" | "color_u8 Cyan = 3"
| "color_u8 Red = 4" | "color_u8 Magenta = 5" | "color_u8 Brown = 6" | "color_u8 LightGray = 7"
| "color_u8 DarkGray = 8" | "color_u8 LightBlue = 9" | "color_u8 LightGreen = 10" | "color_u8 LightCyan = 11"
| "color_u8 LightRed = 12" | "color_u8 Pink = 13" | "color_u8 Yellow = 14" | "color_u8 White = 15"

definition color_code_new :: "color \<Rightarrow> color \<Rightarrow> u8" where
  "color_code_new foreground background = push_bit 4 (color_u8 background) OR color_u8 foreground"

record screen_char =
  ascii_character :: u8
  sc_color_code :: u8

definition BUFFER_HEIGHT :: usize where "BUFFER_HEIGHT = 25"
definition BUFFER_WIDTH :: usize where "BUFFER_WIDTH = 80"

type_synonym buffer = "screen_char list list"

record writer =
  column_position :: usize
  w_color_code :: u8
  w_buffer :: buffer

definition read_cell :: "buffer \<Rightarrow> usize \<Rightarrow> usize \<Rightarrow> screen_char outcome" where
  "read_cell b row col = obind (index b row) (\<lambda>r. index r col)"

definition write_cell :: "usize \<Rightarrow> usize \<Rightarrow> screen_char \<Rightarrow> buffer \<Rightarrow> buffer outcome" where
  "write_cell row col ch b = obind (index b row) (\<lambda>r.
     if col < length r then Done (b[row := r[col := ch]]) else Panic IndexOutOfBounds)"

definition clear_row :: "usize \<Rightarrow> writer \<Rightarrow> writer outcome" where
  "clear_row row w =
     (let blank = \<lparr>ascii_character = 0x20, sc_color_code = w_color_code w\<rparr> in
      map_outcome (\<lambda>b. w\<lparr>w_buffer := b\<rparr>)
        (for_each (\<lambda>col. write_cell row col blank) [0..<BUFFER_WIDTH] (w_buffer w)))"

definition copy_cell :: "usize \<Rightarrow> usize \<Rightarrow> buffer \<Rightarrow> buffer outcome" where
  "copy_cell row col b = obind (read_cell b row col) (\<lambda>ch. write_cell (row - 1) col ch b)"

definition new_line :: "writer \<Rightarrow> writer outcome" where
  "new_line w =
     obind (for_each (\<lambda>row. for_each (copy_cell row) [0..<BUFFER_WIDTH]) [1..<BUFFER_HEIGHT] (w_buffer w)) (\<lambda>b.
     obind (clear_row (BUFFER_HEIGHT - 1) (w\<lparr>w_buffer := b\<rparr>)) (\<lambda>w'.
       Done (w'\<lparr>column_position := 0\<rparr>)))"

definition write_byte :: "u8 \<Rightarrow> writer \<Rightarrow> writer outcome" where
  "write_byte byte w =
     (if byte = 0x0A then new_line w
      else
        obind (if column_position w \<ge> BUFFER_WIDTH then new_line w else Done w) (\<lambda>w.
        let row = BUFFER_HEIGHT - 1; col = column_position w in
        obind (write_cell row col \<lparr>ascii_character = byte, sc_color_code = w_color_code w\<rparr> (w_buffer w)) (\<lambda>b.
        obind (usize_add (column_position w) 1) (\<lambda>c.
          Done (w\<lparr>w_buffer := b, column_position := c\<rparr>)))))"

definition printable :: "u8 \<Rightarrow> u8" where
  "printable byte = (if (0x20 \<le> byte \<and> byte \<le> 0x7E) \<or> byte = 0x0A then byte else 0xFE)"

definition write_string :: "string \<Rightarrow> writer \<Rightarrow> writer outcome" where
  "write_string s w = for_each (\<lambda>byte. write_byte (printable byte)) (as_bytes s) w"

text \<open>The writer \<^verbatim>\<open>WRITER\<close> starts with, over whatever the screen shows at boot.\<close>

definition initial_writer :: "buffer \<Rightarrow> writer" where
  "initial_writer screen =
     \<lparr>column_position = 0, w_color_code = color_code_new Yellow Black, w_buffer = screen\<rparr>"

text \<open>
  \<^verbatim>\<open>print!\<close> and \<^verbatim>\<open>println!\<close>: the pieces \<^verbatim>\<open>write_fmt\<close> hands to \<^verbatim>\<open>write_str\<close> are written one after
  the other, so only their concatenation matters (\<open>write_string_append\<close>). \<^verbatim>\<open>write_str\<close> always
  returns \<^verbatim>\<open>Ok\<close>, so the \<^verbatim>\<open>unwrap\<close> in \<^verbatim>\<open>_print\<close> never fails.
\<close>

definition vga_print :: "string \<Rightarrow> writer \<Rightarrow> writer outcome" where
  "vga_print s w = write_string s w"

definition vga_println :: "string \<Rightarrow> writer \<Rightarrow> writer outcome" where
  "vga_println s w = vga_print (s @ [CHR 0x0A]) w"

section \<open>The shape of the screen\<close>

definition buffer_ok :: "buffer \<Rightarrow> bool" where
  "buffer_ok b \<longleftrightarrow> length b = BUFFER_HEIGHT \<and> list_all (\<lambda>r. length r = BUFFER_WIDTH) b"

definition writer_ok :: "writer \<Rightarrow> bool" where
  "writer_ok w \<longleftrightarrow> column_position w \<le> BUFFER_WIDTH \<and> buffer_ok (w_buffer w)"

definition blank_row :: "u8 \<Rightarrow> screen_char list" where
  "blank_row color = replicate BUFFER_WIDTH \<lparr>ascii_character = 0x20, sc_color_code = color\<rparr>"

lemma buffer_ok_length: "buffer_ok b \<Longrightarrow> length b = 25"
  by (simp add: buffer_ok_def BUFFER_HEIGHT_def)

lemma buffer_ok_row: "buffer_ok b \<Longrightarrow> row < 25 \<Longrightarrow> length (b ! row) = 80"
  by (simp add: buffer_ok_def BUFFER_HEIGHT_def BUFFER_WIDTH_def list_all_length)

lemma buffer_ok_update: "buffer_ok b \<Longrightarrow> length r = 80 \<Longrightarrow> buffer_ok (b[row := r])"
  by (auto simp: buffer_ok_def BUFFER_WIDTH_def list_all_iff dest: set_update_subset_insert [THEN subsetD])

lemma write_cell_ok:
  "buffer_ok b \<Longrightarrow> row < 25 \<Longrightarrow> col < 80 \<Longrightarrow> write_cell row col ch b = Done (b[row := (b ! row)[col := ch]])"
  by (simp add: write_cell_def buffer_ok_length buffer_ok_row)

lemma read_cell_ok: "buffer_ok b \<Longrightarrow> row < 25 \<Longrightarrow> col < 80 \<Longrightarrow> read_cell b row col = Done (b ! row ! col)"
  by (simp add: read_cell_def buffer_ok_length buffer_ok_row)

lemma write_string_append: "write_string (s @ t) w = obind (write_string s w) (write_string t)"
  unfolding write_string_def as_bytes_append for_each_append ..

section \<open>The copying loops\<close>

text \<open>
  The inner loops touch one row: after the first \<open>k\<close> columns the row holds the new cells up to
  \<open>k\<close> and its old ones from there on.
\<close>

lemma fill_row_loop:
  assumes "buffer_ok b" and "row < 25" and "k \<le> 80"
  shows "for_each (\<lambda>col. write_cell row col ch) [0..<k] b
    = Done (b[row := replicate k ch @ drop k (b ! row)])"
  using assms(3)
proof (induction k)
  case 0
  then show ?case by simp
next
  case (Suc k)
  let ?r = "replicate k ch @ drop k (b ! row)"
  have len: "length (b ! row) = 80" using assms buffer_ok_row by blast
  then have "length ?r = 80" using Suc.prems by simp
  then have ok: "buffer_ok (b[row := ?r])" using assms(1) buffer_ok_update by blast
  have "?r[k := ch] = replicate (Suc k) ch @ drop (Suc k) (b ! row)"
    using Suc.prems len
    by (simp add: list_update_append Cons_nth_drop_Suc [symmetric] replicate_append_same)
  then show ?case
    using Suc assms(2) ok buffer_ok_length [OF assms(1)]
    by (simp add: for_each_append write_cell_ok)
qed

lemma copy_row_loop:
  assumes "buffer_ok b" and "Suc row < 25" and "k \<le> 80"
  shows "for_each (copy_cell (Suc row)) [0..<k] b
    = Done (b[row := take k (b ! Suc row) @ drop k (b ! row)])"
  using assms(3)
proof (induction k)
  case 0
  then show ?case by simp
next
  case (Suc k)
  let ?r = "take k (b ! Suc row) @ drop k (b ! row)"
  have len: "length (b ! row) = 80" "length (b ! Suc row) = 80"
    using assms buffer_ok_row by simp_all
  then have "length ?r = 80" using Suc.prems by simp
  then have ok: "buffer_ok (b[row := ?r])" using assms(1) buffer_ok_update by blast
  have "?r[k := b ! Suc row ! k] = take (Suc k) (b ! Suc row) @ drop (Suc k) (b ! row)"
    using Suc.prems len
    by (simp add: list_update_append Cons_nth_drop_Suc [symmetric] take_Suc_conv_app_nth)
  then show ?case
    using Suc assms(2) ok buffer_ok_length [OF assms(1)]
    by (simp add: for_each_append copy_cell_def read_cell_ok write_cell_ok)
qed

lemma buffer_ok_scrolled: "buffer_ok b \<Longrightarrow> n < 25 \<Longrightarrow> buffer_ok (take n (tl b) @ drop n b)"
  by (cases b)
    (auto simp: buffer_ok_def BUFFER_HEIGHT_def list_all_iff dest!: in_set_takeD in_set_dropD)

lemma scroll_loop:
  assumes "buffer_ok b" and "n < 25"
  shows "for_each (\<lambda>row. for_each (copy_cell row) [0..<80]) [1..<Suc n] b
    = Done (take n (tl b) @ drop n b)"
  using assms(2)
proof (induction n)
  case 0
  then show ?case by simp
next
  case (Suc n)
  let ?b = "take n (tl b) @ drop n b"
  have len: "length b = 25" using assms(1) by (rule buffer_ok_length)
  have ok: "buffer_ok ?b"
    using assms(1) Suc.prems by (intro buffer_ok_scrolled) simp_all
  have rows: "?b ! n = b ! n" "?b ! Suc n = b ! Suc n"
    using len Suc.prems by (simp_all add: nth_append)
  have "length (b ! n) = 80" "length (b ! Suc n) = 80"
    using buffer_ok_row [OF assms(1)] Suc.prems by simp_all
  then have "for_each (copy_cell (Suc n)) [0..<80] ?b = Done (?b[n := b ! Suc n])"
    using copy_row_loop [OF ok Suc.prems, of 80] rows by simp
  moreover have "?b[n := b ! Suc n] = take (Suc n) (tl b) @ drop (Suc n) b"
    using len Suc.prems
    by (simp add: list_update_append Cons_nth_drop_Suc [symmetric] take_Suc_conv_app_nth nth_tl)
  ultimately show ?case using Suc by (simp add: for_each_append)
qed

lemma new_line_eq:
  assumes "buffer_ok (w_buffer w)"
  shows "new_line w = Done (w\<lparr>w_buffer := tl (w_buffer w) @ [blank_row (w_color_code w)], column_position := 0\<rparr>)"
proof -
  let ?b = "w_buffer w"
  have len: "length ?b = 25" using assms by (rule buffer_ok_length)
  let ?s = "take 24 (tl ?b) @ drop 24 ?b"
  have "for_each (\<lambda>row. for_each (copy_cell row) [0..<80]) [1..<25] ?b = Done ?s"
    using scroll_loop [OF assms, of 24] by simp
  moreover have ok: "buffer_ok ?s"
    using assms by (intro buffer_ok_scrolled) simp_all
  moreover have "for_each (\<lambda>col. write_cell 24 col ch) [0..<80] ?s = Done (?s[24 := replicate 80 ch])" for ch
    using fill_row_loop [OF ok, of 24 80 ch] buffer_ok_row [OF ok, of 24] by simp
  moreover have "length (drop 24 ?b) = 1" using len by simp
  then obtain x where "drop 24 ?b = [x]" by (metis One_nat_def length_0_conv length_Suc_conv)
  then have "?s[24 := r] = tl ?b @ [r]" for r
    using len by (simp add: list_update_append)
  ultimately show ?thesis
    by (simp add: new_line_def clear_row_def BUFFER_HEIGHT_def BUFFER_WIDTH_def blank_row_def)
qed

section \<open>A terminal to compare with\<close>

text \<open>
  The console as a user sees it: the rows of the screen and the column of the cursor on the
  last row. A line feed, and a character past the last column, push a blank row.
\<close>

definition push_row :: "u8 \<Rightarrow> screen_char list list \<Rightarrow> screen_char list list" where
  "push_row color rows = tl rows @ [blank_row color]"

definition put_at :: "nat \<Rightarrow> screen_char \<Rightarrow> screen_char list list \<Rightarrow> screen_char list list" where
  "put_at c ch rows = butlast rows @ [(last rows)[c := ch]]"

fun terminal_step :: "u8 \<Rightarrow> u8 \<Rightarrow> nat \<times> screen_char list list \<Rightarrow> nat \<times> screen_char list list" where
  "terminal_step color byte (c, rows) =
     (if byte = 0x0A then (0, push_row color rows)
      else if c = 80 then (1, put_at 0 \<lparr>ascii_character = byte, sc_color_code = color\<rparr> (push_row color rows))
      else (Suc c, put_at c \<lparr>ascii_character = byte, sc_color_code = color\<rparr> rows))"

definition screen_of :: "writer \<Rightarrow> nat \<times> screen_char list list" where
  "screen_of w = (column_position w, w_buffer w)"

lemma buffer_ok_push_row: "buffer_ok b \<Longrightarrow> buffer_ok (push_row color b)"
  by (cases b) (auto simp: buffer_ok_def push_row_def blank_row_def BUFFER_HEIGHT_def list_all_iff)

lemma put_at_update: "length b = Suc n \<Longrightarrow> put_at c ch b = b[n := (b ! n)[c := ch]]"
  by (cases b rule: rev_cases) (auto simp: put_at_def list_update_append)

lemma buffer_ok_put_at: "buffer_ok b \<Longrightarrow> buffer_ok (put_at c ch b)"
  using put_at_update [of b 24] buffer_ok_update [of b "(b ! 24)[c := ch]"]
  by (simp add: buffer_ok_length buffer_ok_row)

lemma write_cell_put_at:
  "buffer_ok b \<Longrightarrow> c < 80 \<Longrightarrow> write_cell 24 c ch b = Done (put_at c ch b)"
  using put_at_update [of b 24] by (simp add: write_cell_ok buffer_ok_length)

lemma new_line_step:
  assumes "writer_ok w"
  shows "\<exists>w'. new_line w = Done w' \<and> writer_ok w' \<and> w_color_code w' = w_color_code w \<and>
    screen_of w' = (0, push_row (w_color_code w) (w_buffer w))"
  using assms new_line_eq [of w] buffer_ok_push_row [of "w_buffer w" "w_color_code w"]
  by (auto simp: writer_ok_def screen_of_def push_row_def)

lemma put_step:
  assumes "writer_ok w" and "column_position w < 80" and "byte \<noteq> 0x0A"
  shows "\<exists>w'. write_byte byte w = Done w' \<and> writer_ok w' \<and> w_color_code w' = w_color_code w \<and>
    screen_of w' = (Suc (column_position w),
      put_at (column_position w) \<lparr>ascii_character = byte, sc_color_code = w_color_code w\<rparr> (w_buffer w))"
  using assms write_cell_put_at [of "w_buffer w"] buffer_ok_put_at [of "w_buffer w"]
  by (auto simp: write_byte_def writer_ok_def screen_of_def BUFFER_HEIGHT_def BUFFER_WIDTH_def
      Let_def usize_add_def usize_bound_def)

lemma write_byte_step:
  assumes "writer_ok w"
  shows "\<exists>w'. write_byte byte w = Done w' \<and> writer_ok w' \<and> w_color_code w' = w_color_code w \<and>
    screen_of w' = terminal_step (w_color_code w) byte (screen_of w)"
proof (cases "byte = 0x0A")
  case True
  then show ?thesis
    using new_line_step [OF assms] by (auto simp: write_byte_def screen_of_def)
next
  case False
  show ?thesis
  proof (cases "column_position w < 80")
    case True
    then show ?thesis using put_step [OF assms True False] False by (simp add: screen_of_def)
  next
    case wrap: False
    then have full: "column_position w = 80" using assms by (simp add: writer_ok_def BUFFER_WIDTH_def)
    obtain w1 where w1: "new_line w = Done w1" "writer_ok w1" "w_color_code w1 = w_color_code w"
      "screen_of w1 = (0, push_row (w_color_code w) (w_buffer w))"
      using new_line_step [OF assms] by blast
    have "write_byte byte w = write_byte byte w1"
      using False full w1(1,4) by (simp add: write_byte_def screen_of_def BUFFER_WIDTH_def)
    then show ?thesis
      using put_step [OF w1(2) _ False] w1(3,4) full False by (auto simp: screen_of_def)
  qed
qed

lemma for_each_write_byte:
  assumes "writer_ok w"
  shows "\<exists>w'. for_each (\<lambda>byte. write_byte (printable byte)) bs w = Done w' \<and> writer_ok w' \<and>
    w_color_code w' = w_color_code w \<and>
    screen_of w' = fold (\<lambda>byte. terminal_step (w_color_code w) (printable byte)) bs (screen_of w)"
  using assms
proof (induction bs arbitrary: w)
  case Nil
  then show ?case by simp
next
  case (Cons b bs)
  obtain w1 where w1: "write_byte (printable b) w = Done w1" "writer_ok w1"
    "w_color_code w1 = w_color_code w"
    "screen_of w1 = terminal_step (w_color_code w) (printable b) (screen_of w)"
    using write_byte_step [OF Cons.prems] by blast
  from Cons.IH [OF w1(2)] w1 show ?case by simp
qed

section \<open>Properties\<close>

text \<open>C10: The console never indexes outside the screen and shows what a terminal shows. From a
  well-formed writer, \<^verbatim>\<open>write_string\<close> of any string terminates without a panic, keeps the
  25 by 80 shape, the colour and the cursor bound, and leaves the screen the terminal
  specification gives for the printable form of its bytes: the nested cell-by-cell copy of
  \<^verbatim>\<open>new_line\<close> is exactly "drop the first row, add a blank one".\<close>

theorem write_string_refines_terminal:
  assumes "writer_ok w"
  shows "\<exists>w'. write_string s w = Done w' \<and> writer_ok w' \<and> w_color_code w' = w_color_code w \<and>
    screen_of w' = fold (\<lambda>byte. terminal_step (w_color_code w) (printable byte)) (as_bytes s) (screen_of w)"
  using for_each_write_byte [OF assms] by (simp add: write_string_def)

theorem write_string_refines_terminal_witness:
  "writer_ok (initial_writer (replicate 25 (blank_row 7))) \<and>
   (\<exists>w'. write_string ''ok'' (initial_writer (replicate 25 (blank_row 7))) = Done w' \<and> column_position w' = 2)"
proof -
  let ?w = "initial_writer (replicate 25 (blank_row 7))"
  have ok: "writer_ok ?w"
    by (simp add: writer_ok_def initial_writer_def buffer_ok_def blank_row_def BUFFER_HEIGHT_def list_all_iff)
  from write_string_refines_terminal [OF ok, of "''ok''"]
  obtain w' where "write_string ''ok'' ?w = Done w'"
    "screen_of w' = fold (\<lambda>byte. terminal_step (w_color_code ?w) (printable byte)) (as_bytes ''ok'') (screen_of ?w)"
    by blast
  then show ?thesis
    using ok by (auto simp: screen_of_def initial_writer_def as_bytes_def printable_def of_char_def)
qed

end
