(* ===== verification/Console.thy ===== *)
theory Console
  imports Vga_Buffer
begin

text \<open>
  The kernel's two output channels: the VGA writer and the serial port of \<^verbatim>\<open>src/serial.rs\<close>.
  The UART driver is a library; the model keeps the text handed to it, in order. The macros
  \<^verbatim>\<open>serial_print!\<close>, \<^verbatim>\<open>serial_println!\<close>, \<^verbatim>\<open>println!\<close> and \<^verbatim>\<open>log!\<close> (of \<^verbatim>\<open>src/main.rs\<close>) are
  the operations on it.
\<close>

record console =
  vga :: writer
  serial :: string

definition newline :: string where
  "newline = [CHR 0x0A]"

definition serial_print :: "string \<Rightarrow> console \<Rightarrow> console" where
  "serial_print s con = con\<lparr>serial := serial con @ s\<rparr>"

definition serial_println :: "string \<Rightarrow> console \<Rightarrow> console" where
  "serial_println s con = serial_print (s @ newline) con"

definition println :: "string \<Rightarrow> console \<Rightarrow> console outcome" where
  "println s con = map_outcome (\<lambda>w. con\<lparr>vga := w\<rparr>) (vga_println s (vga con))"

definition log_line :: "string \<Rightarrow> console \<Rightarrow> console outcome" where
  "log_line s con = map_outcome (serial_println s) (println s con)"

definition console_ok :: "console \<Rightarrow> bool" where
  "console_ok con \<longleftrightarrow> writer_ok (vga con)"

lemma serial_println_fields [simp]:
  "vga (serial_println s con) = vga con"
  "console_ok (serial_println s con) = console_ok con"
  "vga (serial_print s con) = vga con"
  "console_ok (serial_print s con) = console_ok con"
  by (simp_all add: serial_println_def serial_print_def console_ok_def)

lemma write_string_total:
  assumes "writer_ok w"
  shows "\<exists>w'. write_string s w = Done w' \<and> writer_ok w'"
  using for_each_write_byte [OF assms, of "as_bytes s"] by (auto simp: write_string_def)

lemma println_total:
  assumes "console_ok con"
  shows "\<exists>con'. println s con = Done con' \<and> console_ok con' \<and> serial con' = serial con"
proof -
  obtain w' where "vga_println s (vga con) = Done w'" "writer_ok w'"
    using write_string_total assms unfolding vga_println_def vga_print_def console_ok_def by blast
  then show ?thesis by (simp add: println_def console_ok_def)
qed

lemma log_line_total:
  assumes "console_ok con"
  shows "\<exists>con'. log_line s con = Done con' \<and> console_ok con' \<and> serial con' = serial con @ s @ newline"
proof -
  obtain con' where "println s con = Done con'" "console_ok con'" "serial con' = serial con"
    using println_total [OF assms] by blast
  then show ?thesis
    by (simp add: log_line_def) (simp add: serial_println_def serial_print_def)
qed

section \<open>A concrete console\<close>

definition blank_console :: console where
  "blank_console = \<lparr>vga = initial_writer (replicate 25 (replicate 80 \<lparr>ascii_character = 0x20, sc_color_code = 0\<rparr>)),
     serial = []\<rparr>"

lemma console_ok_blank: "console_ok blank_console"
  by (simp add: console_ok_def blank_console_def writer_ok_def initial_writer_def buffer_ok_def list_all_iff
      BUFFER_HEIGHT_def BUFFER_WIDTH_def)

end
