(* ===== verification/Serial_Port.thy ===== *)
theory Serial_Port
  imports Console
begin

text \<open>
  The serial port below the text (\<^verbatim>\<open>src/serial.rs\<close>). \<open>Console\<close> keeps the text printed so far; here is what
  printing does to the device. The UART driver (uart\_16550) is a library and a parameter: programming
  the device, and sending one byte, which waits for the transmitter. \<^verbatim>\<open>SERIAL1\<close> is a lazy static: the first
  print programs the device.
\<close>

section \<open>The lazy static\<close>

record 'h uart_16550 =
  uart_init :: "u16 \<Rightarrow> 'h \<Rightarrow> 'h"
  uart_send :: "u16 \<Rightarrow> u8 \<Rightarrow> 'h \<Rightarrow> 'h outcome"

record 'h serial_state =
  started :: bool
  port_hw :: 'h

definition SERIAL1 :: "'h uart_16550 \<Rightarrow> 'h serial_state \<Rightarrow> 'h serial_state" where
  "SERIAL1 U st = (if started st then st else \<lparr>started = True, port_hw = uart_init U 0x3F8 (port_hw st)\<rparr>)"

definition uart_print :: "'h uart_16550 \<Rightarrow> string \<Rightarrow> 'h serial_state \<Rightarrow> 'h serial_state outcome" where
  "uart_print U s st =
     (let st = SERIAL1 U st in
      map_outcome (\<lambda>h. st\<lparr>port_hw := h\<rparr>) (for_each (uart_send U 0x3F8) (as_bytes s) (port_hw st)))"

section \<open>Prints are one stream\<close>

lemma uart_print_started:
  assumes "started st"
  shows "for_each (uart_print U) texts st =
    map_outcome (\<lambda>h. st\<lparr>port_hw := h\<rparr>) (for_each (uart_send U 0x3F8) (as_bytes (concat texts)) (port_hw st))"
  using assms
proof (induction texts arbitrary: st)
  case (Cons s texts)
  show ?case
  proof (cases "for_each (uart_send U 0x3F8) (as_bytes s) (port_hw st)")
    case (Done h)
    then show ?thesis
      using Cons.IH [of "st\<lparr>port_hw := h\<rparr>"] Cons.prems
      by (simp add: uart_print_def SERIAL1_def for_each_append)
  next
    case (Panic e)
    then show ?thesis using Cons.prems by (simp add: uart_print_def SERIAL1_def for_each_append)
  qed
qed (simp add: as_bytes_def)

lemma serial_fold: "serial (fold serial_print texts con) = serial con @ concat texts"
  by (induction texts arbitrary: con) (simp_all add: serial_print_def)

section \<open>Properties\<close>

text \<open>C28: The serial text is what the device gets. However the output is cut into prints, the device is programmed
  once, before the first byte and only if anything is printed, and is then sent exactly the bytes of the
  text the console model records, in order; if the driver fails at a byte, nothing after that byte is sent.\<close>

theorem uart_refines_serial_text:
  assumes "\<not> started st" and "serial con = []"
  shows "for_each (uart_print U) texts st =
    (if texts = [] then Done st
     else map_outcome (\<lambda>h. \<lparr>started = True, port_hw = h\<rparr>)
       (for_each (uart_send U 0x3F8) (as_bytes (serial (fold serial_print texts con))) (uart_init U 0x3F8 (port_hw st))))"
proof (cases texts)
  case (Cons s rest)
  have "uart_print U s st = uart_print U s (SERIAL1 U st)"
    using assms(1) by (simp add: uart_print_def SERIAL1_def)
  then have "for_each (uart_print U) texts st = for_each (uart_print U) texts (SERIAL1 U st)"
    using Cons by simp
  then show ?thesis
    using uart_print_started [of "SERIAL1 U st" U texts] assms Cons
    by (simp add: SERIAL1_def serial_fold serial_print_def)
qed simp

text \<open>A device that records what it is told.\<close>

definition sample_uart :: "string list uart_16550" where
  "sample_uart = \<lparr>uart_init = (\<lambda>p h. h @ [''init'']), uart_send = (\<lambda>p b h. Done (h @ [str_of_bytes [b]]))\<rparr>"

theorem uart_refines_serial_text_witness:
  "\<not> started \<lparr>started = False, port_hw = []\<rparr> \<and> serial blank_console = [] \<and>
   for_each (uart_print sample_uart) [''a'', ''bc''] \<lparr>started = False, port_hw = []\<rparr> =
     Done \<lparr>started = True, port_hw = [''init'', ''a'', ''b'', ''c'']\<rparr>"
proof -
  have "serial blank_console = []" by (simp add: blank_console_def)
  moreover have "str_of_bytes [0x61] = ''a''" "str_of_bytes [0x62] = ''b''" "str_of_bytes [0x63] = ''c''" by code_simp+
  ultimately show ?thesis
    using uart_refines_serial_text [of "\<lparr>started = False, port_hw = []\<rparr>" blank_console sample_uart "[''a'', ''bc'']"]
    by (simp add: serial_print_def sample_uart_def as_bytes_def)
qed

end
