(* ===== verification/Ports.thy ===== *)
theory Ports
  imports Rust_Std
begin

text \<open>
  Port-mapped I/O. \<^verbatim>\<open>x86_64::instructions::port::Port\<close> executes one \<^verbatim>\<open>in\<close> or \<^verbatim>\<open>out\<close>
  instruction; what the hardware answers is not the kernel's code. It is a parameter of every
  definition that talks to a device: a record of the four instructions over an unspecified
  hardware state, threaded through the operations in the order the code performs them.
\<close>

record 'h ports =
  inb :: "u16 \<Rightarrow> 'h \<Rightarrow> u8 \<times> 'h"
  outb :: "u16 \<Rightarrow> u8 \<Rightarrow> 'h \<Rightarrow> 'h"
  inl :: "u16 \<Rightarrow> 'h \<Rightarrow> u32 \<times> 'h"
  outl :: "u16 \<Rightarrow> u32 \<Rightarrow> 'h \<Rightarrow> 'h"

text \<open>A read of several registers, one after the other.\<close>

fun read_all :: "('r \<Rightarrow> 'h \<Rightarrow> 'v \<times> 'h) \<Rightarrow> 'r list \<Rightarrow> 'h \<Rightarrow> 'v list \<times> 'h" where
  "read_all rd [] hw = ([], hw)"
| "read_all rd (r # rs) hw =
     (let (v, hw') = rd r hw; (vs, hw'') = read_all rd rs hw' in (v # vs, hw''))"

lemma read_all_static:
  assumes "\<And>r hw. fst (rd r hw) = f r"
  shows "fst (read_all rd rs hw) = map f rs"
  using assms by (induction rs arbitrary: hw) (auto simp: Let_def case_prod_unfold)

lemma length_read_all [simp]: "length (fst (read_all rd rs hw)) = length rs"
  by (induction rs arbitrary: hw) (auto simp: Let_def case_prod_unfold)

end
