(* ===== verification/Clock.thy ===== *)
theory Clock
  imports Ports
begin

text \<open>
  Time, \<^verbatim>\<open>src/time.rs\<close>: the uptime counter the timer interrupt advances, and the wall clock
  read from the CMOS registers and turned into a timestamp.
\<close>

section \<open>Uptime\<close>

text \<open>\<^verbatim>\<open>AtomicU64::fetch_add\<close> wraps around.\<close>

definition tick :: "u64 \<Rightarrow> u64 \<Rightarrow> u64" where
  "tick ms uptime = uptime + ms"

definition uptime_ms :: "u64 \<Rightarrow> u64" where
  "uptime_ms uptime = uptime"

section \<open>The wall clock\<close>

definition read_cmos :: "'h ports \<Rightarrow> u8 \<Rightarrow> 'h \<Rightarrow> u8 \<times> 'h" where
  "read_cmos P reg hw = inb P 0x71 (outb P 0x70 reg hw)"

definition bcd_to_bin :: "nat \<Rightarrow> nat outcome" where
  "bcd_to_bin bcd = obind (usize_mul (drop_bit 4 bcd AND 0x0F) 10) (\<lambda>t. usize_add t (bcd AND 0x0F))"

definition CUMULATIVE :: "nat list" where
  "CUMULATIVE = [0, 31, 59, 90, 120, 151, 181, 212, 243, 273, 304, 334]"

definition month_days :: "nat \<Rightarrow> nat outcome" where
  "month_days month = (if 1 \<le> month \<and> month \<le> 12 then index CUMULATIVE (month - 1) else Done 0)"

text \<open>\<^verbatim>\<open>(year - 1970) * 365 + (year - 1969) / 4 + month_days(month) + day - 1\<close>\<close>

definition days_since_epoch :: "nat \<Rightarrow> nat \<Rightarrow> nat \<Rightarrow> nat outcome" where
  "days_since_epoch year month day =
     obind (usize_sub year 1970) (\<lambda>a.
     obind (usize_mul a 365) (\<lambda>a.
     obind (usize_sub year 1969) (\<lambda>b.
     obind (usize_add a (b div 4)) (\<lambda>a.
     obind (month_days month) (\<lambda>m.
     obind (usize_add a m) (\<lambda>a.
     obind (usize_add a day) (\<lambda>a.
     usize_sub a 1)))))))"

text \<open>\<^verbatim>\<open>days_since_epoch * 86400 + hour * 3600 + min * 60 + sec\<close>\<close>

definition seconds_of :: "nat \<Rightarrow> nat \<Rightarrow> nat \<Rightarrow> nat \<Rightarrow> nat outcome" where
  "seconds_of days hour mins sec =
     obind (usize_mul days 86400) (\<lambda>a.
     obind (usize_mul hour 3600) (\<lambda>h.
     obind (usize_add a h) (\<lambda>a.
     obind (usize_mul mins 60) (\<lambda>m.
     obind (usize_add a m) (\<lambda>a.
     usize_add a sec)))))"

definition timestamp_of_registers :: "u8 \<Rightarrow> u8 \<Rightarrow> u8 \<Rightarrow> u8 \<Rightarrow> u8 \<Rightarrow> u8 \<Rightarrow> nat outcome" where
  "timestamp_of_registers sec mins hour day month year =
     obind (bcd_to_bin (unat sec)) (\<lambda>sec.
     obind (bcd_to_bin (unat mins)) (\<lambda>mins.
     obind (bcd_to_bin (unat hour)) (\<lambda>hour.
     obind (bcd_to_bin (unat day)) (\<lambda>day.
     obind (bcd_to_bin (unat month)) (\<lambda>month.
     obind (bcd_to_bin (unat year)) (\<lambda>year.
     obind (usize_add year 2000) (\<lambda>year.
     obind (days_since_epoch year month day) (\<lambda>days.
     seconds_of days hour mins sec))))))))"

definition unix_timestamp :: "'h ports \<Rightarrow> 'h \<Rightarrow> (nat \<times> 'h) outcome" where
  "unix_timestamp P hw =
     (let (sec, hw) = read_cmos P 0x00 hw;
          (mins, hw) = read_cmos P 0x02 hw;
          (hour, hw) = read_cmos P 0x04 hw;
          (day, hw) = read_cmos P 0x07 hw;
          (month, hw) = read_cmos P 0x08 hw;
          (year, hw) = read_cmos P 0x09 hw in
      map_outcome (\<lambda>t. (t, hw)) (timestamp_of_registers sec mins hour day month year))"

section \<open>A calendar to compare with\<close>

definition leap_year :: "nat \<Rightarrow> bool" where
  "leap_year y \<longleftrightarrow> 4 dvd y \<and> (\<not> 100 dvd y \<or> 400 dvd y)"

definition month_length :: "nat \<Rightarrow> nat \<Rightarrow> nat" where
  "month_length y m =
     (if m = 2 then if leap_year y then 29 else 28 else if m \<in> {4, 6, 9, 11} then 30 else 31)"

definition calendar_days :: "nat \<Rightarrow> nat \<Rightarrow> nat \<Rightarrow> nat" where
  "calendar_days y m d =
     sum_list (map (\<lambda>k. if leap_year k then 366 else 365) [1970..<y]) +
     sum_list (map (month_length y) [1..<m]) + (d - 1)"

lemma leap_year_century: "1901 \<le> y \<Longrightarrow> y \<le> 2099 \<Longrightarrow> leap_year y \<longleftrightarrow> 4 dvd y"
  unfolding leap_year_def by presburger

lemma years_days:
  "n \<le> 130 \<Longrightarrow> sum_list (map (\<lambda>k. if leap_year k then 366 else 365) [1970..<1970 + n])
     = n * 365 + (n + 1) div 4"
proof (induction n)
  case 0
  then show ?case by simp
next
  case (Suc n)
  have "leap_year (1970 + n) \<longleftrightarrow> 4 dvd (1970 + n)"
    using Suc.prems by (intro leap_year_century) simp_all
  moreover have "(Suc n + 1) div 4 = (n + 1) div 4 + (if 4 dvd (1970 + n) then 1 else 0)"
    by presburger
  moreover have "[1970..<1970 + Suc n] = [1970..<1970 + n] @ [1970 + n]"
    using upt_Suc_append [of 1970 "1970 + n"] by (simp only: add_Suc_right)
  ultimately show ?case using Suc by (simp only: map_append sum_list_append) simp
qed

lemma month_cases:
  assumes "1 \<le> (m :: nat)" and "m \<le> 12"
  shows "m \<in> {1, 2, 3, 4, 5, 6, 7, 8, 9, 10, 11, 12}"
  unfolding insert_iff empty_iff using assms by arith

lemma months_days:
  assumes "1 \<le> m" and "m \<le> 12"
  shows "sum_list (map (month_length y) [1..<m])
    = CUMULATIVE ! (m - 1) + (if leap_year y \<and> 2 < m then 1 else 0)"
  using month_cases [OF assms]
  by (elim insertE emptyE; simp add: month_length_def CUMULATIVE_def upt_conv_Cons)

lemma bcd_to_bin_eq: "b < 256 \<Longrightarrow> bcd_to_bin b = Done (b div 16 * 10 + b mod 16)"
proof -
  assume "b < 256"
  then have "b div 16 < 16" by (simp add: less_mult_imp_div_less)
  moreover have m: "(15 :: nat) = mask 4" by (simp add: mask_eq_exp_minus_1)
  have "n AND 15 = n mod 16" for n :: nat
    unfolding m take_bit_eq_mask [symmetric] by (simp add: take_bit_eq_mod)
  moreover have "drop_bit 4 b = b div 16" by (simp add: drop_bit_eq_div)
  moreover have "b mod 16 < 16" by simp
  ultimately show ?thesis by (simp add: bcd_to_bin_def usize_bound_def)
qed

definition month_offset :: "nat \<Rightarrow> nat" where
  "month_offset m = (if 1 \<le> m \<and> m \<le> 12 then CUMULATIVE ! (m - 1) else 0)"

lemma month_days_eq: "month_days m = Done (month_offset m)"
  by (auto simp: month_days_def month_offset_def CUMULATIVE_def)

lemma month_offset_le: "month_offset m \<le> 334"
proof (cases "1 \<le> m \<and> m \<le> 12")
  case True
  then show ?thesis
    using month_cases [of m] by (auto simp: month_offset_def CUMULATIVE_def)
next
  case False
  then show ?thesis by (auto simp: month_offset_def)
qed

lemma days_since_epoch_eq:
  assumes "1970 \<le> y" and "y \<le> 3000" and "d \<le> 1000" and "1 \<le> d \<or> 1970 < y"
  shows "days_since_epoch y m d = Done ((y - 1970) * 365 + (y - 1969) div 4 + month_offset m + d - 1)"
proof -
  have b: "(y - 1970) * 365 \<le> 1030 * 365" "(y - 1969) div 4 \<le> 1031"
    using assms(1,2) by (simp_all add: div_le_mono)
  have "1 \<le> (y - 1970) * 365 + (y - 1969) div 4 + month_offset m + d"
    using assms(4) by auto
  then show ?thesis
    using b assms month_offset_le [of m]
    by (simp add: days_since_epoch_def month_days_eq usize_bound_def)
qed

lemma seconds_of_eq:
  assumes "days \<le> 10 ^ 6" and "hour \<le> 1000" and "mins \<le> 1000" and "sec \<le> 1000"
  shows "seconds_of days hour mins sec = Done (days * 86400 + hour * 3600 + mins * 60 + sec)"
  using assms by (simp add: seconds_of_def usize_bound_def)

definition bcd :: "u8 \<Rightarrow> nat" where
  "bcd b = unat b div 16 * 10 + unat b mod 16"

lemma bcd_le: "bcd b \<le> 165"
proof -
  have "unat b div 16 \<le> 15" using unat_u8_less [of b] by linarith
  moreover have "unat b mod 16 \<le> 15" using mod_less_divisor [of 16 "unat b"] by linarith
  ultimately show ?thesis unfolding bcd_def by linarith
qed

lemma timestamp_of_registers_eq:
  "timestamp_of_registers sec mins hour day month year =
     Done (((bcd year + 30) * 365 + (bcd year + 31) div 4 + month_offset (bcd month) + bcd day - 1) * 86400
       + bcd hour * 3600 + bcd mins * 60 + bcd sec)"
proof -
  let ?y = "bcd year + 2000"
  let ?days = "(bcd year + 30) * 365 + (bcd year + 31) div 4 + month_offset (bcd month) + bcd day - 1"
  have bin: "bcd_to_bin (unat b) = Done (bcd b)" for b
    by (simp add: bcd_to_bin_eq bcd_def)
  have le: "bcd sec \<le> 165" "bcd mins \<le> 165" "bcd hour \<le> 165" "bcd day \<le> 165" "bcd year \<le> 165"
    by (simp_all add: bcd_le)
  have d: "days_since_epoch ?y (bcd month) (bcd day) = Done ?days"
    using days_since_epoch_eq [of ?y "bcd day" "bcd month"] le by simp
  have "(bcd year + 31) div 4 \<le> 49" using le(5) by linarith
  then have "?days \<le> 10 ^ 6" using le month_offset_le [of "bcd month"] by simp
  with le have "seconds_of ?days (bcd hour) (bcd mins) (bcd sec)
      = Done (?days * 86400 + bcd hour * 3600 + bcd mins * 60 + bcd sec)"
    by (intro seconds_of_eq) simp_all
  moreover have "usize_add (bcd year) 2000 = Done ?y" using le by (simp add: usize_bound_def)
  ultimately show ?thesis unfolding timestamp_of_registers_def bin using d by simp
qed

section \<open>Properties\<close>

text \<open>
  What the code relies on of the clock chip: while the six registers are read, register
  \<open>r\<close> reads as \<open>regs r\<close>.
\<close>

definition cmos_holds :: "'h ports \<Rightarrow> (u8 \<Rightarrow> u8) \<Rightarrow> bool" where
  "cmos_holds P regs \<longleftrightarrow> (\<forall>r hw. fst (read_cmos P r hw) = regs r)"

lemma unix_timestamp_eq:
  assumes "cmos_holds P regs"
  shows "\<exists>hw'. unix_timestamp P hw = map_outcome (\<lambda>t. (t, hw'))
    (timestamp_of_registers (regs 0) (regs 2) (regs 4) (regs 7) (regs 8) (regs 9))"
  using assms unfolding cmos_holds_def unix_timestamp_def Let_def
  by (simp add: case_prod_unfold) blast

definition to_bcd :: "nat \<Rightarrow> u8" where
  "to_bcd n = of_nat (n div 10 * 16 + n mod 10)"

lemma bcd_to_bcd:
  assumes "n < 100"
  shows "bcd (to_bcd n) = n"
proof -
  have "n div 10 < 10" using assms by (simp add: less_mult_imp_div_less)
  moreover have m: "n mod 10 < 10" by simp
  ultimately have "n div 10 * 16 + n mod 10 < 256" by linarith
  then have "unat (to_bcd n) = n div 10 * 16 + n mod 10"
    unfolding to_bcd_def by (subst unat_of_nat) simp
  then show ?thesis using m by (simp add: bcd_def)
qed

text \<open>C36: The timestamp against the calendar. When the clock chip holds a date of the years 2000
  to 2099 in BCD, \<^verbatim>\<open>unix_timestamp\<close> returns, without overflow, the number of seconds between
  1970-01-01 and that date and time in the Gregorian calendar, except that from March to December
  of a leap year it is exactly one day short: the leap day of the running year is never
  counted.\<close>

theorem unix_timestamp_calendar:
  assumes "cmos_holds P regs"
    and "regs 0 = to_bcd sec" and "regs 2 = to_bcd mins" and "regs 4 = to_bcd hour"
    and "regs 7 = to_bcd day" and "regs 8 = to_bcd month" and "regs 9 = to_bcd yy"
    and "sec < 60" and "mins < 60" and "hour < 24" and "1 \<le> day" and "day \<le> month_length (2000 + yy) month"
    and "1 \<le> month" and "month \<le> 12" and "yy \<le> 99"
  shows "\<exists>hw'. unix_timestamp P hw = Done ((calendar_days (2000 + yy) month day
      - (if leap_year (2000 + yy) \<and> 2 < month then 1 else 0)) * 86400 + hour * 3600 + mins * 60 + sec, hw')"
proof -
  have day: "day < 100"
    using assms(12) by (auto simp: month_length_def split: if_splits)
  have years: "sum_list (map (\<lambda>k. if leap_year k then 366 else 365) [1970..<2000 + yy])
      = (yy + 30) * 365 + (yy + 31) div 4"
    using years_days [of "yy + 30"] assms(15) by (simp add: add.commute)
  have months: "sum_list (map (month_length (2000 + yy)) [1..<month])
      = month_offset month + (if leap_year (2000 + yy) \<and> 2 < month then 1 else 0)"
    using months_days [OF assms(13,14)] assms(13,14) by (simp add: month_offset_def)
  have "calendar_days (2000 + yy) month day - (if leap_year (2000 + yy) \<and> 2 < month then 1 else 0)
      = (yy + 30) * 365 + (yy + 31) div 4 + month_offset month + day - 1"
    unfolding calendar_days_def years months using assms(11) by simp
  moreover obtain hw' where "unix_timestamp P hw = map_outcome (\<lambda>t. (t, hw'))
      (timestamp_of_registers (to_bcd sec) (to_bcd mins) (to_bcd hour) (to_bcd day) (to_bcd month) (to_bcd yy))"
    using unix_timestamp_eq [OF assms(1)] unfolding assms(2-7) by blast
  ultimately show ?thesis
    using assms(8-15) day by (auto simp: timestamp_of_registers_eq bcd_to_bcd)
qed

text \<open>A clock chip for the witness: the state is the selected register.\<close>

definition sample_rtc :: "(u8 \<Rightarrow> u8) \<Rightarrow> u8 ports" where
  "sample_rtc regs = \<lparr>inb = \<lambda>p s. (regs s, s), outb = \<lambda>p v s. v, inl = \<lambda>p s. (0, s), outl = \<lambda>p v s. s\<rparr>"

definition sample_date :: "u8 \<Rightarrow> u8" where
  "sample_date r = (if r = 7 then to_bcd 1 else if r = 8 then to_bcd 3 else if r = 9 then to_bcd 24 else to_bcd 0)"

theorem unix_timestamp_calendar_witness:
  "cmos_holds (sample_rtc sample_date) sample_date \<and>
   (\<exists>hw'. unix_timestamp (sample_rtc sample_date) 0 = Done ((calendar_days 2024 3 1 - 1) * 86400, hw'))"
proof -
  have c: "cmos_holds (sample_rtc sample_date) sample_date"
    by (simp add: cmos_holds_def read_cmos_def sample_rtc_def)
  have "\<exists>hw'. unix_timestamp (sample_rtc sample_date) 0 = Done ((calendar_days (2000 + 24) 3 1
      - (if leap_year (2000 + 24) \<and> 2 < (3 :: nat) then 1 else 0)) * 86400 + 0 * 3600 + 0 * 60 + 0, hw')"
    by (rule unix_timestamp_calendar [OF c]) (simp_all add: sample_date_def month_length_def)
  then show ?thesis using c by (simp add: leap_year_def)
qed

text \<open>The clock never panics. Whatever bytes the six CMOS registers return, BCD or not, the
  conversion does not overflow, underflow or index out of range, and the timestamp stays below
  2 to the 33.\<close>

lemma unix_timestamp_total:
  "\<exists>t hw'. unix_timestamp P hw = Done (t, hw') \<and> t < 2 ^ 33"
proof -
  have bound: "timestamp_of_registers sec mins hour day month year = Done t \<Longrightarrow> t < 2 ^ 33"
    for sec mins hour day month year t
  proof -
    assume t: "timestamp_of_registers sec mins hour day month year = Done t"
    have "(bcd year + 31) div 4 \<le> 49" using bcd_le [of year] by linarith
    with t show ?thesis
      using bcd_le [of sec] bcd_le [of mins] bcd_le [of hour] bcd_le [of day] bcd_le [of year]
        month_offset_le [of "bcd month"]
      by (simp add: timestamp_of_registers_eq)
  qed
  have "\<exists>t. timestamp_of_registers sec mins hour day month year = Done t"
    for sec mins hour day month year
    by (simp add: timestamp_of_registers_eq)
  then show ?thesis
    unfolding unix_timestamp_def Let_def case_prod_unfold
    by (metis (no_types, lifting) bound outcome.map(1))
qed

end
