(* ===== verification/Gdt.thy ===== *)
theory Gdt
  imports Kernel_Prelude
begin

text \<open>
  Segments and the double-fault stack (\<^verbatim>\<open>src/gdt.rs\<close>), and the order in which \<^verbatim>\<open>kernel_main\<close> brings the
  processor up. Descriptors, the descriptor table and the instructions that load them belong to the x86_64
  crate: a record of the operations the code calls, over unspecified types. The address of the static
  stack is the linker's.
\<close>

definition DOUBLE_FAULT_IST_INDEX :: u16 where "DOUBLE_FAULT_IST_INDEX = 0"
definition STACK_SIZE :: usize where "STACK_SIZE = 4096 * 5"

text \<open>The part of the task state segment the code sets; \<^verbatim>\<open>TaskStateSegment::new\<close> has seven zero entries.\<close>

record tss =
  interrupt_stack_table :: "u64 list"

definition tss_new :: tss where
  "tss_new = \<lparr>interrupt_stack_table = replicate 7 0\<rparr>"

record selectors =
  code_selector :: u16
  data_selector :: u16
  tss_selector :: u16

record ('g, 'd, 'h) x86 =
  gdt_new :: 'g
  add_entry :: "'d \<Rightarrow> 'g \<Rightarrow> u16 \<times> 'g"
  kernel_code_segment :: 'd
  kernel_data_segment :: 'd
  tss_segment :: "tss \<Rightarrow> 'd"
  gdt_load :: "'g \<Rightarrow> 'h \<Rightarrow> 'h"
  set_cs :: "u16 \<Rightarrow> 'h \<Rightarrow> 'h"
  set_ds :: "u16 \<Rightarrow> 'h \<Rightarrow> 'h"
  load_tss :: "u16 \<Rightarrow> 'h \<Rightarrow> 'h"
  idt_load :: "'h \<Rightarrow> 'h"
  pics_initialize :: "'h \<Rightarrow> 'h"
  interrupts_enable :: "'h \<Rightarrow> 'h"
  stack_address :: u64

section \<open>Operations\<close>

text \<open>The lazily built statics \<^verbatim>\<open>TSS\<close> and \<^verbatim>\<open>GDT\<close>. The stack grows down, so the entry is its upper end.\<close>

definition TSS :: "('g, 'd, 'h) x86 \<Rightarrow> tss outcome" where
  "TSS X =
     obind (word_add (stack_address X) (of_nat STACK_SIZE)) (\<lambda>stack_end.
     obind (index (interrupt_stack_table tss_new) (unat DOUBLE_FAULT_IST_INDEX)) (\<lambda>_.
     Done \<lparr>interrupt_stack_table = (interrupt_stack_table tss_new)[unat DOUBLE_FAULT_IST_INDEX := stack_end]\<rparr>))"

definition GDT :: "('g, 'd, 'h) x86 \<Rightarrow> ('g \<times> selectors) outcome" where
  "GDT X =
     obind (TSS X) (\<lambda>t.
     let (code, g) = add_entry X (kernel_code_segment X) (gdt_new X);
         (dat, g) = add_entry X (kernel_data_segment X) g;
         (task, g) = add_entry X (tss_segment X t) g in
     Done (g, \<lparr>code_selector = code, data_selector = dat, tss_selector = task\<rparr>))"

definition gdt_init :: "('g, 'd, 'h) x86 \<Rightarrow> 'h \<Rightarrow> 'h outcome" where
  "gdt_init X hw =
     obind (GDT X) (\<lambda>(g, sel).
     Done (load_tss X (tss_selector sel) (set_ds X (data_selector sel) (set_cs X (code_selector sel) (gdt_load X g hw)))))"

definition init_cpu :: "('g, 'd, 'h) x86 \<Rightarrow> 'h \<Rightarrow> 'h outcome" where
  "init_cpu X hw =
     map_outcome (\<lambda>hw. interrupts_enable X (pics_initialize X (idt_load X hw))) (gdt_init X hw)"

section \<open>The double-fault stack\<close>

text \<open>With a stack inside the address space, the processor comes up, and the entry of the stack table that the
  double-fault handler uses is the upper end of the 20 KiB stack; the other entries are unused.\<close>

lemma TSS_eq:
  assumes "unat (stack_address X) + STACK_SIZE < 2 ^ 64"
  shows "TSS X = Done \<lparr>interrupt_stack_table = (stack_address X + of_nat STACK_SIZE) # replicate 6 0\<rparr>"
proof -
  have "unat (of_nat STACK_SIZE :: u64) = STACK_SIZE" by (simp add: STACK_SIZE_def)
  then have "word_add (stack_address X) (of_nat STACK_SIZE) = Done (stack_address X + of_nat STACK_SIZE)"
    using assms by (simp add: word_add_def)
  then show ?thesis by (simp add: TSS_def tss_new_def DOUBLE_FAULT_IST_INDEX_def numeral_eq_Suc)
qed

lemma init_cpu_Done:
  assumes "unat (stack_address X) + STACK_SIZE < 2 ^ 64"
  shows "\<exists>hw'. init_cpu X hw = Done hw'"
  by (simp add: init_cpu_def gdt_init_def GDT_def TSS_eq [OF assms] Let_def split: prod.splits)

end
