(* ===== verification/Interrupts.thy ===== *)
theory Interrupts
  imports Console Clock Gdt
begin

text \<open>
  The interrupt handlers (\<^verbatim>\<open>src/interrupts.rs\<close>). The scancode decoder (pc-keyboard) and the interrupt
  controllers (pic8259) are libraries: records of the operations the handlers call. Handlers run with
  interrupts off, so they do not nest, and the locks \<^verbatim>\<open>PICS\<close> and \<^verbatim>\<open>KEYBOARD\<close>, which only handlers take
  once interrupts are on, are free when a handler starts. The lock of the VGA writer is not: the
  code a handler interrupts may hold it, and it cannot release it before the handler returns. A spin
  lock that is taken then is a hang.
\<close>

section \<open>State and parameters\<close>

definition PIC_1_OFFSET :: u8 where "PIC_1_OFFSET = 32"
definition PIC_2_OFFSET :: u8 where "PIC_2_OFFSET = PIC_1_OFFSET + 8"

datatype interrupt_index = Timer | Keyboard

fun as_u8 :: "interrupt_index \<Rightarrow> u8" where
  "as_u8 Timer = PIC_1_OFFSET"
| "as_u8 Keyboard = PIC_1_OFFSET + 1"

definition as_usize :: "interrupt_index \<Rightarrow> usize" where
  "as_usize i = unat (as_u8 i)"

text \<open>A decoded key with the text \<^verbatim>\<open>print!\<close> makes of it: the character, or the debug form of the key code.\<close>

datatype decoded_key = Unicode string | RawKey string

record ('kb, 'ev) key_decoder =
  add_byte :: "u8 \<Rightarrow> 'kb \<Rightarrow> (string + 'ev option) \<times> 'kb"
  process_keyevent :: "'ev \<Rightarrow> 'kb \<Rightarrow> decoded_key option \<times> 'kb"

record ('h, 'kb, 'ev) irq_env =
  irq_ports :: "'h ports"
  notify_end_of_interrupt :: "u8 \<Rightarrow> 'h \<Rightarrow> 'h"
  decoder :: "('kb, 'ev) key_decoder"

record ('h, 'kb) cpu_state =
  c_uptime :: u64
  c_held :: bool  \<comment> \<open>the interrupted code holds the lock of the writer\<close>
  c_console :: console
  c_keyboard :: 'kb
  c_hw :: 'h

section \<open>Handlers\<close>

definition print_locked :: "string \<Rightarrow> ('h, 'kb) cpu_state \<Rightarrow> ('h, 'kb) cpu_state outcome" where
  "print_locked s st =
     (if c_held st then Panic Hang
      else map_outcome (\<lambda>w. st\<lparr>c_console := (c_console st)\<lparr>vga := w\<rparr>\<rparr>) (vga_print s (vga (c_console st))))"

definition end_of_interrupt :: "('h, 'kb, 'ev) irq_env \<Rightarrow> interrupt_index \<Rightarrow> ('h, 'kb) cpu_state \<Rightarrow> ('h, 'kb) cpu_state" where
  "end_of_interrupt E i st = st\<lparr>c_hw := notify_end_of_interrupt E (as_u8 i) (c_hw st)\<rparr>"

definition timer_interrupt_handler :: "('h, 'kb, 'ev) irq_env \<Rightarrow> ('h, 'kb) cpu_state \<Rightarrow> ('h, 'kb) cpu_state outcome" where
  "timer_interrupt_handler E st =
     Done (end_of_interrupt E Timer (st\<lparr>c_uptime := tick 18 (c_uptime st)\<rparr>))"

fun key_text :: "decoded_key \<Rightarrow> string" where
  "key_text (Unicode character) = character"
| "key_text (RawKey key) = key"

text \<open>What a scancode makes the decoder answer: its new state, and the key to print if there is one.\<close>

definition decode_scancode :: "('kb, 'ev) key_decoder \<Rightarrow> u8 \<Rightarrow> 'kb \<Rightarrow> decoded_key option \<times> 'kb" where
  "decode_scancode D scancode kb =
     (case add_byte D scancode kb of
        (Inr (Some key_event), kb) \<Rightarrow> process_keyevent D key_event kb
      | (_, kb) \<Rightarrow> (None, kb))"

definition keyboard_interrupt_handler :: "('h, 'kb, 'ev) irq_env \<Rightarrow> ('h, 'kb) cpu_state \<Rightarrow> ('h, 'kb) cpu_state outcome" where
  "keyboard_interrupt_handler E st =
     (let (scancode, h) = inb (irq_ports E) 0x60 (c_hw st);
          (key, kb) = decode_scancode (decoder E) scancode (c_keyboard st);
          st = st\<lparr>c_hw := h, c_keyboard := kb\<rparr> in
      map_outcome (end_of_interrupt E Keyboard)
        (case key of None \<Rightarrow> Done st | Some key \<Rightarrow> print_locked (key_text key) st))"

definition breakpoint_handler :: "string \<Rightarrow> ('h, 'kb) cpu_state \<Rightarrow> ('h, 'kb) cpu_state outcome" where
  "breakpoint_handler stack_frame st = print_locked (''EXCEPTION: BREAKPOINT'' @ newline @ stack_frame @ newline) st"

definition double_fault_handler :: "string \<Rightarrow> ('h, 'kb) cpu_state \<Rightarrow> ('h, 'kb) cpu_state outcome" where
  "double_fault_handler stack_frame st = Panic Explicit"

text \<open>The table: vectors 3 and 8 of the processor and the first two lines of the first controller.\<close>

definition idt :: "('h, 'kb, 'ev) irq_env \<Rightarrow> string \<Rightarrow> usize \<Rightarrow> (('h, 'kb) cpu_state \<Rightarrow> ('h, 'kb) cpu_state outcome) option" where
  "idt E frame v =
     (if v = 3 then Some (breakpoint_handler frame)
      else if v = 8 then Some (double_fault_handler frame)
      else if v = as_usize Timer then Some (timer_interrupt_handler E)
      else if v = as_usize Keyboard then Some (keyboard_interrupt_handler E)
      else None)"

text \<open>The double-fault handler runs on a stack of its own.\<close>

definition idt_stack_index :: "usize \<Rightarrow> u16 option" where
  "idt_stack_index v = (if v = 8 then Some DOUBLE_FAULT_IST_INDEX else None)"

lemma double_fault_stack:
  assumes "unat (stack_address X) + STACK_SIZE < 2 ^ 64"
  shows "\<exists>t. TSS X = Done t \<and> map_option (\<lambda>i. interrupt_stack_table t ! unat i) (idt_stack_index 8) =
    Some (stack_address X + of_nat STACK_SIZE)"
  by (simp add: TSS_eq [OF assms] idt_stack_index_def DOUBLE_FAULT_IST_INDEX_def)

text \<open>The handler of an interrupt line, found through the table.\<close>

definition serve :: "('h, 'kb, 'ev) irq_env \<Rightarrow> interrupt_index \<Rightarrow> ('h, 'kb) cpu_state \<Rightarrow> ('h, 'kb) cpu_state outcome" where
  "serve E i st = (case idt E [] (as_usize i) of Some handler \<Rightarrow> handler st | None \<Rightarrow> Panic Explicit)"

lemma serve_eq [simp]:
  "serve E Timer st = timer_interrupt_handler E st"
  "serve E Keyboard st = keyboard_interrupt_handler E st"
  by (simp_all add: serve_def idt_def as_usize_def PIC_1_OFFSET_def)

section \<open>What the decoder makes of a stream of scancodes\<close>

text \<open>
  The reference for a run of interrupts: the hardware and the decoder alone, with the text of the keys
  they yield, key by key.
\<close>

fun typed :: "('h, 'kb, 'ev) irq_env \<Rightarrow> interrupt_index list \<Rightarrow> 'h \<Rightarrow> 'kb \<Rightarrow> string list \<times> 'h \<times> 'kb" where
  "typed E [] h kb = ([], h, kb)"
| "typed E (Timer # is) h kb = typed E is (notify_end_of_interrupt E 32 h) kb"
| "typed E (Keyboard # is) h kb =
     (let (scancode, h) = inb (irq_ports E) 0x60 h;
          (key, kb) = decode_scancode (decoder E) scancode kb;
          (ks, r) = typed E is (notify_end_of_interrupt E 33 h) kb in
      ((case key of None \<Rightarrow> ks | Some key \<Rightarrow> key_text key # ks), r))"

lemma print_append:
  assumes "writer_ok w" and "vga_print s w = Done w'"
  shows "writer_ok w'" and "vga_print t w' = vga_print (s @ t) w"
proof -
  show "writer_ok w'" using write_string_total [OF assms(1), of s] assms(2) by (auto simp: vga_print_def)
  show "vga_print t w' = vga_print (s @ t) w"
    using assms(2) by (simp add: vga_print_def write_string_append)
qed

lemma vga_print_Nil [simp]: "vga_print [] w = Done w"
  by (simp add: vga_print_def write_string_def as_bytes_def)

lemma keyboard_handler_free:
  assumes "console_ok (c_console st)" and "\<not> c_held st"
    and r: "inb (irq_ports E) 0x60 (c_hw st) = (scancode, h)"
    and d: "decode_scancode (decoder E) scancode (c_keyboard st) = (key, kb)"
  obtains w where "vga_print (case key of None \<Rightarrow> [] | Some key \<Rightarrow> key_text key) (vga (c_console st)) = Done w"
    and "keyboard_interrupt_handler E st = Done (st\<lparr>c_console := (c_console st)\<lparr>vga := w\<rparr>, c_keyboard := kb,
      c_hw := notify_end_of_interrupt E 33 h\<rparr>)"
proof -
  let ?s = "case key of None \<Rightarrow> [] | Some key \<Rightarrow> key_text key"
  obtain w where "vga_print ?s (vga (c_console st)) = Done w"
    using write_string_total assms(1) unfolding console_ok_def vga_print_def by blast
  then show thesis
    using assms(2) that
    by (cases key) (simp_all add: keyboard_interrupt_handler_def r d print_locked_def end_of_interrupt_def PIC_1_OFFSET_def)
qed

lemma serve_one:
  assumes "console_ok (c_console st)" and "\<not> c_held st"
  shows "\<exists>ks h kb w. typed E [i] (c_hw st) (c_keyboard st) = (ks, h, kb) \<and> vga_print (concat ks) (vga (c_console st)) = Done w \<and>
    serve E i st = Done (st\<lparr>c_uptime := c_uptime st + 18 * of_nat (count_list [i] Timer),
      c_console := (c_console st)\<lparr>vga := w\<rparr>, c_keyboard := kb, c_hw := h\<rparr>)"
proof (cases i)
  case Timer
  then show ?thesis
    by (simp add: timer_interrupt_handler_def end_of_interrupt_def tick_def PIC_1_OFFSET_def)
next
  case Keyboard
  obtain scancode h where r: "inb (irq_ports E) 0x60 (c_hw st) = (scancode, h)" by fastforce
  obtain key kb where d: "decode_scancode (decoder E) scancode (c_keyboard st) = (key, kb)" by fastforce
  obtain w where "vga_print (case key of None \<Rightarrow> [] | Some key \<Rightarrow> key_text key) (vga (c_console st)) = Done w"
    "keyboard_interrupt_handler E st = Done (st\<lparr>c_console := (c_console st)\<lparr>vga := w\<rparr>, c_keyboard := kb,
      c_hw := notify_end_of_interrupt E 33 h\<rparr>)"
    using keyboard_handler_free [OF assms r d] by blast
  then show ?thesis using Keyboard by (cases key) (simp_all add: r d)
qed

lemma typed_Cons:
  "typed E [i] h kb = (ks, h1, kb1) \<Longrightarrow> typed E is h1 kb1 = (ks', r) \<Longrightarrow> typed E (i # is) h kb = (ks @ ks', r)"
  by (cases i) (auto split: prod.splits option.splits)

lemma serve_all:
  assumes "console_ok (c_console st)" and "\<not> c_held st"
  shows "\<exists>ks h kb w. typed E irqs (c_hw st) (c_keyboard st) = (ks, h, kb) \<and> vga_print (concat ks) (vga (c_console st)) = Done w \<and>
    for_each (serve E) irqs st = Done (st\<lparr>c_uptime := c_uptime st + 18 * of_nat (count_list irqs Timer),
      c_console := (c_console st)\<lparr>vga := w\<rparr>, c_keyboard := kb, c_hw := h\<rparr>)"
  using assms
proof (induction irqs arbitrary: st)
  case (Cons i irqs)
  obtain ks h kb w where one: "typed E [i] (c_hw st) (c_keyboard st) = (ks, h, kb)"
    "vga_print (concat ks) (vga (c_console st)) = Done w"
    "serve E i st = Done (st\<lparr>c_uptime := c_uptime st + 18 * of_nat (count_list [i] Timer),
      c_console := (c_console st)\<lparr>vga := w\<rparr>, c_keyboard := kb, c_hw := h\<rparr>)" (is "_ = Done ?st")
    using serve_one [OF Cons.prems] by blast
  have ok: "console_ok (c_console ?st)"
    using print_append(1) [OF _ one(2)] Cons.prems(1) by (simp add: console_ok_def)
  obtain ks' h' kb' w' where rest: "typed E irqs (c_hw ?st) (c_keyboard ?st) = (ks', h', kb')"
    "vga_print (concat ks') (vga (c_console ?st)) = Done w'"
    "for_each (serve E) irqs ?st = Done (?st\<lparr>c_uptime := c_uptime ?st + 18 * of_nat (count_list irqs Timer),
      c_console := (c_console ?st)\<lparr>vga := w'\<rparr>, c_keyboard := kb', c_hw := h'\<rparr>)"
    using Cons.IH [OF ok] Cons.prems(2) by auto
  have "typed E (i # irqs) (c_hw st) (c_keyboard st) = (ks @ ks', h', kb')"
    using typed_Cons [OF one(1), of irqs ks' "(h', kb')"] rest(1) by simp
  moreover have "vga_print (concat (ks @ ks')) (vga (c_console st)) = Done w'"
    using print_append(2) [OF _ one(2), of "concat ks'"] rest(2) Cons.prems(1) by (simp add: console_ok_def)
  moreover have "for_each (serve E) (i # irqs) st =
      Done (st\<lparr>c_uptime := c_uptime st + 18 * of_nat (count_list (i # irqs) Timer),
        c_console := (c_console st)\<lparr>vga := w'\<rparr>, c_keyboard := kb', c_hw := h'\<rparr>)"
    using one(3) rest(3) by (simp add: algebra_simps)
  ultimately show ?case by blast
qed simp

section \<open>Properties\<close>

text \<open>A keyboard whose scancode is its only state, decoded as the character with that code, and a
  controller that counts the notifications.\<close>

definition sample_irq_env :: "(u8 \<times> u8 list, unit, u8) irq_env" where
  "sample_irq_env =
     \<lparr>irq_ports = \<lparr>inb = (\<lambda>p (c, acks). (c, (c, acks))), outb = (\<lambda>p v h. h), inl = (\<lambda>p h. (0, h)), outl = (\<lambda>p v h. h)\<rparr>,
      notify_end_of_interrupt = (\<lambda>v (c, acks). (c, acks @ [v])),
      decoder = \<lparr>add_byte = (\<lambda>c kb. (Inr (if c < 0x80 then Some c else None), kb)),
                 process_keyevent = (\<lambda>c kb. (Some (Unicode (str_of_bytes [c])), kb))\<rparr>\<rparr>"

definition sample_cpu :: "bool \<Rightarrow> (u8 \<times> u8 list, unit) cpu_state" where
  "sample_cpu held = \<lparr>c_uptime = 0, c_held = held, c_console = blank_console, c_keyboard = (), c_hw = (0x41, [])\<rparr>"

text \<open>C25: Interrupts are served. While the interrupted code does not hold the lock of the writer, any sequence
  of timer and keyboard interrupts is handled without a panic or a hang: the uptime grows by 18 for every
  tick (modulo 2 to the 64), the screen shows the text of the keys the decoder yields, in order, each
  interrupt is acknowledged to the controller once with its own vector after it has been handled, and
  nothing else changes.\<close>

theorem interrupts_served:
  assumes "console_ok (c_console st)" and "\<not> c_held st"
  shows "\<exists>ks h kb w. typed E irqs (c_hw st) (c_keyboard st) = (ks, h, kb) \<and> vga_print (concat ks) (vga (c_console st)) = Done w \<and>
    for_each (serve E) irqs st = Done (st\<lparr>c_uptime := c_uptime st + 18 * of_nat (count_list irqs Timer),
      c_console := (c_console st)\<lparr>vga := w\<rparr>, c_keyboard := kb, c_hw := h\<rparr>)"
  using assms by (rule serve_all)

lemma letter: "str_of_bytes [0x41] = ''A''"
  by code_simp

theorem interrupts_served_witness:
  "\<exists>st'. for_each (serve sample_irq_env) [Timer, Keyboard, Timer] (sample_cpu False) = Done st' \<and>
     console_ok (c_console (sample_cpu False)) \<and> \<not> c_held (sample_cpu False) \<and>
     c_uptime st' = 36 \<and> c_hw st' = (0x41, [32, 33, 32]) \<and> vga_print ''A'' (vga blank_console) = Done (vga (c_console st'))"
  using interrupts_served [of "sample_cpu False" sample_irq_env "[Timer, Keyboard, Timer]"]
  by (auto simp: sample_cpu_def sample_irq_env_def console_ok_blank decode_scancode_def letter)

text \<open>A key typed at the wrong moment stops the machine. When the interrupted code holds the lock of the VGA
  writer, which every \<^verbatim>\<open>println!\<close> does with interrupts on, the keyboard handler returns if and only if
  the scancode completes no key: a key to print makes it spin on the lock for ever, so the interrupted code
  never runs again and the interrupt is never acknowledged.\<close>

lemma keyboard_interrupt_deadlock:
  assumes "c_held st" and "inb (irq_ports E) 0x60 (c_hw st) = (scancode, h)"
    and "decode_scancode (decoder E) scancode (c_keyboard st) = (key, kb)"
  shows "serve E Keyboard st =
    (if key = None then Done (st\<lparr>c_keyboard := kb, c_hw := notify_end_of_interrupt E 33 h\<rparr>) else Panic Hang)"
  using assms
  by (cases key) (simp_all add: keyboard_interrupt_handler_def print_locked_def end_of_interrupt_def PIC_1_OFFSET_def)

lemma keyboard_interrupt_deadlock_witness:
  "c_held (sample_cpu True) \<and> serve sample_irq_env Keyboard (sample_cpu True) = Panic Hang"
  using keyboard_interrupt_deadlock [of "sample_cpu True" sample_irq_env "0x41" "(0x41, [])" "Some (Unicode (str_of_bytes [0x41]))" "()"]
  by (simp add: sample_cpu_def sample_irq_env_def decode_scancode_def)

end
