(* ===== verification/Preemption.thy ===== *)
theory Preemption
  imports Interrupts
begin

text \<open>
  Output and interrupts together. Once \<^verbatim>\<open>kernel_main\<close> has enabled interrupts, the code that writes lines can be
  stopped between any two operations by a handler, which runs to its end before the code goes on. The code is
  here a sequence of calls of \<^verbatim>\<open>_print\<close> (\<^verbatim>\<open>src/vga_buffer.rs\<close>), each of which takes the lock of the writer,
  writes its bytes and releases the lock, and of the \<^verbatim>\<open>_print\<close> of \<^verbatim>\<open>src/serial.rs\<close>, whose lock no handler
  takes. A schedule says when the code runs and when an interrupt comes. The writer is
  taken to exist: its one-time construction by \<^verbatim>\<open>lazy_static\<close> on first use, during which a handler that prints would
  spin as well, is not part of the model.
\<close>

section \<open>Code and schedules\<close>

datatype code_op = Acquire | Put u8 | Release | SerialOut string

datatype output_call = Print string | SerialPrint string

fun call_ops :: "output_call \<Rightarrow> code_op list" where
  "call_ops (Print s) = Acquire # map Put (as_bytes s) @ [Release]"
| "call_ops (SerialPrint s) = [SerialOut s]"

definition code_ops :: "output_call list \<Rightarrow> code_op list" where
  "code_ops calls = concat (map call_ops calls)"

definition log_calls :: "string \<Rightarrow> output_call list" where
  "log_calls line = [Print (line @ newline), SerialPrint (line @ newline)]"

fun exec_op :: "code_op \<Rightarrow> ('h, 'kb) cpu_state \<Rightarrow> ('h, 'kb) cpu_state outcome" where
  "exec_op Acquire st = (if c_held st then Panic Hang else Done (st\<lparr>c_held := True\<rparr>))"
| "exec_op (Put b) st =
     map_outcome (\<lambda>w. st\<lparr>c_console := (c_console st)\<lparr>vga := w\<rparr>\<rparr>) (write_byte (printable b) (vga (c_console st)))"
| "exec_op Release st = Done (st\<lparr>c_held := False\<rparr>)"
| "exec_op (SerialOut s) st = Done (st\<lparr>c_console := serial_print s (c_console st)\<rparr>)"

datatype cpu_event = Step | Irq interrupt_index

text \<open>One event: the next operation of the code, if there is one left, or a handler.\<close>

fun run_event :: "('h, 'kb, 'ev) irq_env \<Rightarrow> cpu_event \<Rightarrow> code_op list \<times> ('h, 'kb) cpu_state
    \<Rightarrow> (code_op list \<times> ('h, 'kb) cpu_state) outcome" where
  "run_event E Step ([], st) = Done ([], st)"
| "run_event E Step (op # ops, st) = map_outcome (Pair ops) (exec_op op st)"
| "run_event E (Irq i) (ops, st) = map_outcome (Pair ops) (serve E i st)"

definition run_schedule :: "('h, 'kb, 'ev) irq_env \<Rightarrow> cpu_event list \<Rightarrow> output_call list \<Rightarrow> ('h, 'kb) cpu_state
    \<Rightarrow> (code_op list \<times> ('h, 'kb) cpu_state) outcome" where
  "run_schedule E es calls st = for_each (run_event E) es (code_ops calls, st)"

section \<open>What a schedule amounts to\<close>

fun irqs :: "cpu_event list \<Rightarrow> interrupt_index list" where
  "irqs [] = []"
| "irqs (Step # es) = irqs es"
| "irqs (Irq i # es) = i # irqs es"

fun screen_lines :: "output_call list \<Rightarrow> string list" where
  "screen_lines [] = []"
| "screen_lines (Print s # calls) = s # screen_lines calls"
| "screen_lines (SerialPrint s # calls) = screen_lines calls"

fun serial_text :: "output_call list \<Rightarrow> string" where
  "serial_text [] = []"
| "serial_text (Print s # calls) = serial_text calls"
| "serial_text (SerialPrint s # calls) = s @ serial_text calls"

text \<open>A key completed while the code is between taking and releasing the lock. Only the position in the code,
  the keyboard and the decoder matter.\<close>

fun collides :: "('h, 'kb, 'ev) irq_env \<Rightarrow> cpu_event list \<Rightarrow> code_op list \<Rightarrow> bool \<Rightarrow> 'h \<Rightarrow> 'kb \<Rightarrow> bool" where
  "collides E [] ops inside h kb \<longleftrightarrow> False"
| "collides E (Step # es) [] inside h kb \<longleftrightarrow> collides E es [] inside h kb"
| "collides E (Step # es) (op # ops) inside h kb \<longleftrightarrow>
     collides E es ops (op = Acquire \<or> inside \<and> op \<noteq> Release) h kb"
| "collides E (Irq i # es) ops inside h kb \<longleftrightarrow>
     (let (ks, h, kb) = typed E [i] h kb in inside \<and> ks \<noteq> [] \<or> collides E es ops inside h kb)"

section \<open>Single events\<close>

lemma code_ops_simps [simp]:
  "code_ops [] = []"
  "code_ops (Print s # calls) = Acquire # map Put (as_bytes s) @ Release # code_ops calls"
  "code_ops (SerialPrint s # calls) = SerialOut s # code_ops calls"
  by (simp_all add: code_ops_def)

lemma vga_print_Cons: "vga_print (c # s) w = obind (write_byte (printable (of_char c)) w) (vga_print s)"
  by (cases "write_byte (printable (of_char c)) w") (simp_all add: vga_print_def write_string_def as_bytes_def)

lemma as_bytes_simps: "as_bytes [] = []" "as_bytes (c # s) = of_char c # as_bytes s"
  by (simp_all add: as_bytes_def)

lemma serve_inside:
  assumes "c_held st" and "typed E [i] (c_hw st) (c_keyboard st) = (ks, h, kb)"
  shows "serve E i st =
    (if ks = [] then Done (st\<lparr>c_uptime := c_uptime st + 18 * of_nat (count_list [i] Timer), c_keyboard := kb, c_hw := h\<rparr>)
     else Panic Hang)"
proof (cases i)
  case Timer
  then show ?thesis
    using assms by (auto simp: timer_interrupt_handler_def end_of_interrupt_def tick_def PIC_1_OFFSET_def)
next
  case Keyboard
  obtain scancode h1 where r: "inb (irq_ports E) 0x60 (c_hw st) = (scancode, h1)" by fastforce
  obtain key kb1 where d: "decode_scancode (decoder E) scancode (c_keyboard st) = (key, kb1)" by fastforce
  show ?thesis
    using keyboard_interrupt_deadlock [OF assms(1) r d] assms(2) Keyboard by (cases key) (auto simp: r d)
qed

text \<open>Where the code is: inside a call, with the rest \<open>r\<close> of its text to write, or between two calls.\<close>

definition resumes :: "('h, 'kb) cpu_state \<Rightarrow> string \<Rightarrow> output_call list \<Rightarrow> code_op list \<Rightarrow> bool" where
  "resumes st r calls ops \<longleftrightarrow> console_ok (c_console st) \<and>
     (if c_held st then ops = map Put (as_bytes r) @ Release # code_ops calls else r = [] \<and> ops = code_ops calls)"

lemma resumes_cases [consumes 1, case_names put release idle print serial]:
  assumes "resumes st r calls ops"
  obtains c s where "c_held st" "r = c # s" "ops = Put (of_char c) # map Put (as_bytes s) @ Release # code_ops calls"
  | "c_held st" "r = []" "ops = Release # code_ops calls"
  | "\<not> c_held st" "r = []" "calls = []" "ops = []"
  | s cs where "\<not> c_held st" "r = []" "calls = Print s # cs" "ops = Acquire # map Put (as_bytes s) @ Release # code_ops cs"
  | s cs where "\<not> c_held st" "r = []" "calls = SerialPrint s # cs" "ops = SerialOut s # code_ops cs"
proof (cases "c_held st")
  case True
  then show thesis using assms that(1,2) by (cases r) (auto simp: resumes_def as_bytes_simps)
next
  case False
  then show thesis
    using assms that(3,4,5) by (cases calls; cases "hd calls") (auto simp: resumes_def)
qed

lemma step_outcome:
  assumes "resumes st r calls ops"
  shows "\<exists>st' r' calls'. run_event E Step (ops, st) = Done (tl ops, st') \<and> resumes st' r' calls' (tl ops) \<and>
    c_hw st' = c_hw st \<and> c_keyboard st' = c_keyboard st \<and>
    (\<forall>op rest. ops = op # rest \<longrightarrow> c_held st' = (op = Acquire \<or> c_held st \<and> op \<noteq> Release)) \<and> (ops = [] \<longrightarrow> st' = st)"
  using assms
proof (cases rule: resumes_cases)
  case (put c s)
  obtain w where "write_byte (printable (of_char c)) (vga (c_console st)) = Done w" "writer_ok w"
    using write_byte_step assms by (metis console_ok_def resumes_def)
  then show ?thesis
    using put by (intro exI [of _ "st\<lparr>c_console := (c_console st)\<lparr>vga := w\<rparr>\<rparr>"] exI [of _ s] exI [of _ calls])
      (simp add: resumes_def console_ok_def)
next
  case release
  then show ?thesis
    using assms by (intro exI [of _ "st\<lparr>c_held := False\<rparr>"] exI [of _ "[]"] exI [of _ calls]) (simp add: resumes_def)
next
  case idle
  then show ?thesis using assms by auto
next
  case (print s cs)
  then show ?thesis
    using assms by (intro exI [of _ "st\<lparr>c_held := True\<rparr>"] exI [of _ s] exI [of _ cs]) (simp add: resumes_def)
next
  case (serial s cs)
  then show ?thesis
    using assms by (intro exI [of _ "st\<lparr>c_console := serial_print s (c_console st)\<rparr>"] exI [of _ "[]"] exI [of _ cs])
      (simp add: resumes_def)
qed

lemma irq_outcome:
  assumes "resumes st r calls ops" and t: "typed E [i] (c_hw st) (c_keyboard st) = (ks, h, kb)" and "\<not> (c_held st \<and> ks \<noteq> [])"
  shows "\<exists>w. vga_print (concat ks) (vga (c_console st)) = Done w \<and>
    run_event E (Irq i) (ops, st) = Done (ops, st\<lparr>c_uptime := c_uptime st + 18 * of_nat (count_list [i] Timer),
      c_console := (c_console st)\<lparr>vga := w\<rparr>, c_keyboard := kb, c_hw := h\<rparr>) \<and> writer_ok w"
proof (cases "c_held st")
  case True
  then show ?thesis
    using assms serve_inside [OF True t] by (simp add: resumes_def console_ok_def)
next
  case False
  have ok: "console_ok (c_console st)" using assms(1) by (simp add: resumes_def)
  obtain w where w: "vga_print (concat ks) (vga (c_console st)) = Done w"
    "serve E i st = Done (st\<lparr>c_uptime := c_uptime st + 18 * of_nat (count_list [i] Timer),
      c_console := (c_console st)\<lparr>vga := w\<rparr>, c_keyboard := kb, c_hw := h\<rparr>)"
    using serve_one [OF ok False, of E i] t by auto
  then show ?thesis using print_append(1) [OF _ w(1)] ok by (simp add: console_ok_def)
qed


lemma irq_resumes:
  assumes "resumes st r calls ops" and "typed E [i] (c_hw st) (c_keyboard st) = (ks, h, kb)" and "\<not> (c_held st \<and> ks \<noteq> [])"
  shows "\<exists>st'. run_event E (Irq i) (ops, st) = Done (ops, st') \<and> resumes st' r calls ops \<and>
    c_held st' = c_held st \<and> c_hw st' = h \<and> c_keyboard st' = kb"
proof -
  obtain w where "run_event E (Irq i) (ops, st) = Done (ops, st\<lparr>c_uptime := c_uptime st + 18 * of_nat (count_list [i] Timer),
      c_console := (c_console st)\<lparr>vga := w\<rparr>, c_keyboard := kb, c_hw := h\<rparr>)" "writer_ok w"
    using irq_outcome [OF assms] by (elim exE conjE)
  then show ?thesis using assms(1) by (intro exI conjI) (assumption, simp_all add: resumes_def console_ok_def)
qed

section \<open>Whole schedules\<close>

lemma schedule_outcome:
  assumes "resumes st r calls ops"
  shows "if collides E es ops (c_held st) (c_hw st) (c_keyboard st) then for_each (run_event E) es (ops, st) = Panic Hang
    else \<exists>st'. for_each (run_event E) es (ops, st) = Done (drop (count_list es Step) ops, st')"
  using assms
proof (induction es arbitrary: st r calls ops)
  case (Cons e es)
  show ?case
  proof (cases e)
    case Step
    obtain st' r' calls' where s: "run_event E Step (ops, st) = Done (tl ops, st')" "resumes st' r' calls' (tl ops)"
      "c_hw st' = c_hw st" "c_keyboard st' = c_keyboard st"
      "\<forall>op rest. ops = op # rest \<longrightarrow> c_held st' = (op = Acquire \<or> c_held st \<and> op \<noteq> Release)" "ops = [] \<longrightarrow> st' = st"
      using step_outcome [OF Cons.prems, of E] by (elim exE conjE)
    have "collides E (e # es) ops (c_held st) (c_hw st) (c_keyboard st) =
        collides E es (tl ops) (c_held st') (c_hw st') (c_keyboard st')"
      using s(3-6) Step by (cases ops) auto
    moreover have "drop (count_list (e # es) Step) ops = drop (count_list es Step) (tl ops)"
      using Step by (simp add: drop_Suc)
    ultimately show ?thesis using Cons.IH [OF s(2)] s(1) Step by simp
  next
    case (Irq i)
    obtain ks h kb where t: "typed E [i] (c_hw st) (c_keyboard st) = (ks, h, kb)" by (cases "typed E [i] (c_hw st) (c_keyboard st)")
    show ?thesis
    proof (cases "c_held st \<and> ks \<noteq> []")
      case True
      then show ?thesis using serve_inside [OF _ t] Irq by (simp add: t del: typed.simps)
    next
      case False
      obtain st' where st': "run_event E (Irq i) (ops, st) = Done (ops, st')" "resumes st' r calls ops"
        "c_held st' = c_held st" "c_hw st' = h" "c_keyboard st' = kb"
        using irq_resumes [OF Cons.prems t False] by (elim exE conjE)
      have "collides E (e # es) ops (c_held st) (c_hw st) (c_keyboard st) =
          collides E es ops (c_held st') (c_hw st') (c_keyboard st')"
        using False Irq st'(3-5) by (auto simp: t simp del: typed.simps)
      then show ?thesis using Cons.IH [OF st'(2)] st'(1) Irq by simp
    qed
  qed
qed simp

text \<open>The result of a schedule that runs the code to its end: the screen has the pending rest of a line, then
  the lines to come shuffled with the keys; everything else is as the events alone determine it.\<close>

definition finishes :: "('h, 'kb, 'ev) irq_env \<Rightarrow> cpu_event list \<Rightarrow> code_op list \<Rightarrow> ('h, 'kb) cpu_state \<Rightarrow> string
    \<Rightarrow> output_call list \<Rightarrow> bool" where
  "finishes E es ops st r calls \<longleftrightarrow> (\<exists>pieces ks h kb w.
     typed E (irqs es) (c_hw st) (c_keyboard st) = (ks, h, kb) \<and> pieces \<in> shuffles (screen_lines calls) ks \<and>
     vga_print (r @ concat pieces) (vga (c_console st)) = Done w \<and>
     for_each (run_event E) es (ops, st) = Done ([], st\<lparr>c_uptime := c_uptime st + 18 * of_nat (count_list (irqs es) Timer),
       c_held := False, c_console := \<lparr>vga = w, serial = serial (c_console st) @ serial_text calls\<rparr>,
       c_keyboard := kb, c_hw := h\<rparr>))"

lemma finishes_put:
  assumes "write_byte (printable (of_char c)) (vga (c_console st)) = Done w"
    and "finishes E es ops (st\<lparr>c_console := (c_console st)\<lparr>vga := w\<rparr>\<rparr>) s calls"
  shows "finishes E (Step # es) (Put (of_char c) # ops) st (c # s) calls"
  using assms unfolding finishes_def by (simp add: vga_print_Cons)

lemma finishes_release:
  "finishes E es ops (st\<lparr>c_held := False\<rparr>) [] calls \<Longrightarrow> finishes E (Step # es) (Release # ops) st [] calls"
  unfolding finishes_def by simp

lemma finishes_print:
  assumes "\<not> c_held st" and "finishes E es ops (st\<lparr>c_held := True\<rparr>) s calls"
  shows "finishes E (Step # es) (Acquire # ops) st [] (Print s # calls)"
proof -
  obtain pieces ks h kb w where f: "typed E (irqs es) (c_hw st) (c_keyboard st) = (ks, h, kb)"
    "pieces \<in> shuffles (screen_lines calls) ks" "vga_print (s @ concat pieces) (vga (c_console st)) = Done w"
    "for_each (run_event E) es (ops, st\<lparr>c_held := True\<rparr>) = Done ([], st\<lparr>c_uptime := c_uptime st + 18 * of_nat (count_list (irqs es) Timer),
       c_held := False, c_console := \<lparr>vga = w, serial = serial (c_console st) @ serial_text calls\<rparr>,
       c_keyboard := kb, c_hw := h\<rparr>)"
    using assms(2) unfolding finishes_def by auto
  moreover have "s # pieces \<in> shuffles (screen_lines (Print s # calls)) ks"
    using f(2) by (simp add: Cons_in_shuffles_leftI)
  ultimately show ?thesis
    unfolding finishes_def using assms(1)
    by (intro exI [of _ "s # pieces"] exI [of _ ks] exI [of _ h] exI [of _ kb] exI [of _ w]) (simp del: shuffles.simps)
qed

lemma finishes_serial:
  "finishes E es ops (st\<lparr>c_console := serial_print s (c_console st)\<rparr>) [] calls \<Longrightarrow>
     finishes E (Step # es) (SerialOut s # ops) st [] (SerialPrint s # calls)"
  unfolding finishes_def by (simp add: serial_print_def)

lemma finishes_idle:
  "finishes E es [] st [] calls \<Longrightarrow> finishes E (Step # es) [] st [] calls"
  unfolding finishes_def by simp

lemma finishes_irq:
  assumes t: "typed E [i] (c_hw st) (c_keyboard st) = (ks, h, kb)" and "c_held st \<longrightarrow> ks = []" and "\<not> c_held st \<longrightarrow> r = []"
    and w: "vga_print (concat ks) (vga (c_console st)) = Done w" and "writer_ok (vga (c_console st))"
    and st1: "st1 = st\<lparr>c_uptime := c_uptime st + 18 * of_nat (count_list [i] Timer),
      c_console := (c_console st)\<lparr>vga := w\<rparr>, c_keyboard := kb, c_hw := h\<rparr>"
    and run: "run_event E (Irq i) (ops, st) = Done (ops, st1)" and "finishes E es ops st1 r calls"
  shows "finishes E (Irq i # es) ops st r calls"
proof -
  obtain pieces ks' h' kb' w' where f: "typed E (irqs es) h kb = (ks', h', kb')" "pieces \<in> shuffles (screen_lines calls) ks'"
    "vga_print (r @ concat pieces) w = Done w'"
    "for_each (run_event E) es (ops, st1) = Done ([], st1\<lparr>c_uptime := c_uptime st1 + 18 * of_nat (count_list (irqs es) Timer),
       c_held := False, c_console := \<lparr>vga = w', serial = serial (c_console st1) @ serial_text calls\<rparr>,
       c_keyboard := kb', c_hw := h'\<rparr>)"
    using assms(8) unfolding finishes_def by (auto simp: st1)
  have "ks @ pieces \<in> shuffles (screen_lines calls) (ks @ ks')"
    using f(2) by (induction ks) (auto intro: Cons_in_shuffles_rightI)
  moreover have "vga_print (r @ concat (ks @ pieces)) (vga (c_console st)) = Done w'"
    using assms(2,3) f(3) w print_append(2) [OF assms(5) w, of "concat pieces"] by (cases "c_held st") auto
  ultimately show ?thesis
    unfolding finishes_def using typed_Cons [OF t f(1)] run f(4)
    by (intro exI [of _ "ks @ pieces"] exI [of _ "ks @ ks'"] exI [of _ h'] exI [of _ kb'] exI [of _ w'])
      (simp add: st1 algebra_simps del: shuffles.simps typed.simps run_event.simps)
qed

lemma finishes_step:
  assumes "resumes st r calls ops"
    and rest: "\<And>st' r' calls'. resumes st' r' calls' (tl ops) \<Longrightarrow> c_hw st' = c_hw st \<Longrightarrow> c_keyboard st' = c_keyboard st \<Longrightarrow>
      (if ops = [] then c_held st' = c_held st else c_held st' = (hd ops = Acquire \<or> c_held st \<and> hd ops \<noteq> Release)) \<Longrightarrow>
      finishes E es (tl ops) st' r' calls'"
  shows "finishes E (Step # es) ops st r calls"
  using assms(1)
proof (cases rule: resumes_cases)
  case (put c s)
  obtain w where w: "write_byte (printable (of_char c)) (vga (c_console st)) = Done w" "writer_ok w"
    using write_byte_step assms(1) by (metis console_ok_def resumes_def)
  have "finishes E es (tl ops) (st\<lparr>c_console := (c_console st)\<lparr>vga := w\<rparr>\<rparr>) s calls"
    by (rule rest) (use put w(2) in \<open>simp_all add: resumes_def console_ok_def\<close>)
  with finishes_put [OF w(1)] put show ?thesis by simp
next
  case release
  have "finishes E es (tl ops) (st\<lparr>c_held := False\<rparr>) [] calls"
    by (rule rest) (use release assms(1) in \<open>simp_all add: resumes_def\<close>)
  with release show ?thesis by (simp add: finishes_release)
next
  case idle
  then show ?thesis using rest [of st r calls] assms(1) by (simp add: finishes_idle)
next
  case (print s cs)
  have "finishes E es (tl ops) (st\<lparr>c_held := True\<rparr>) s cs"
    by (rule rest) (use print assms(1) in \<open>simp_all add: resumes_def\<close>)
  with print show ?thesis by (simp add: finishes_print)
next
  case (serial s cs)
  have "finishes E es (tl ops) (st\<lparr>c_console := serial_print s (c_console st)\<rparr>) [] cs"
    by (rule rest) (use serial assms(1) in \<open>simp_all add: resumes_def\<close>)
  with serial show ?thesis by (simp add: finishes_serial)
qed

lemma schedule_finishes:
  assumes "resumes st r calls ops" and "\<not> collides E es ops (c_held st) (c_hw st) (c_keyboard st)"
    and "length ops \<le> count_list es Step"
  shows "finishes E es ops st r calls"
  using assms
proof (induction es arbitrary: st r calls ops)
  case Nil
  then show ?case by (cases rule: resumes_cases) (auto simp: finishes_def)
next
  case (Cons e es)
  show ?case
  proof (cases e)
    case Step
    have "finishes E (Step # es) ops st r calls"
      by (rule finishes_step [OF Cons.prems(1)], rule Cons.IH, assumption)
        (use Cons.prems(2,3) Step in \<open>cases ops; simp\<close>)+
    then show ?thesis using Step by simp
  next
    case (Irq i)
    obtain ks h kb where t: "typed E [i] (c_hw st) (c_keyboard st) = (ks, h, kb)" by (cases "typed E [i] (c_hw st) (c_keyboard st)")
    have nc: "\<not> (c_held st \<and> ks \<noteq> [])" "\<not> collides E es ops (c_held st) h kb"
      using Cons.prems(2) Irq by (auto simp: t simp del: typed.simps)
    obtain w where w: "vga_print (concat ks) (vga (c_console st)) = Done w" "writer_ok w"
      "run_event E (Irq i) (ops, st) = Done (ops, st\<lparr>c_uptime := c_uptime st + 18 * of_nat (count_list [i] Timer),
        c_console := (c_console st)\<lparr>vga := w\<rparr>, c_keyboard := kb, c_hw := h\<rparr>)" (is "_ = Done (_, ?st)")
      using irq_outcome [OF Cons.prems(1) t nc(1)] by (elim exE conjE)
    have "finishes E es ops ?st r calls"
      by (rule Cons.IH) (use Cons.prems w(2) nc(2) Irq in \<open>simp_all add: resumes_def console_ok_def\<close>)
    with finishes_irq [OF t _ _ w(1) _ refl w(3)] nc(1) Cons.prems(1) Irq show ?thesis
      by (auto simp: resumes_def console_ok_def split: if_splits)
  qed
qed

text \<open>Without interrupts the operations of a list of \<^verbatim>\<open>log!\<close> lines are the model of \<^verbatim>\<open>log!\<close> used elsewhere.\<close>

lemma log_calls_text [simp]:
  "screen_lines (concat (map log_calls lines)) = map (\<lambda>l. l @ newline) lines"
  "serial_text (concat (map log_calls lines)) = concat (map (\<lambda>l. l @ newline) lines)"
  by (induction lines) (simp_all add: log_calls_def)

lemma for_each_log_line:
  assumes "console_ok con" and "vga_print (concat (map (\<lambda>l. l @ newline) lines)) (vga con) = Done w"
  shows "for_each log_line lines con = Done \<lparr>vga = w, serial = serial con @ concat (map (\<lambda>l. l @ newline) lines)\<rparr>"
  using assms
proof (induction lines arbitrary: con)
  case (Cons l lines)
  obtain con1 where l: "log_line l con = Done con1" "console_ok con1" "serial con1 = serial con @ l @ newline"
    using log_line_total [OF Cons.prems(1)] by blast
  then have "vga_print (l @ newline) (vga con) = Done (vga con1)"
    by (auto simp: log_line_def println_def vga_println_def newline_def map_outcome_Done_iff serial_println_def serial_print_def)
  then have "vga_print (concat (map (\<lambda>l. l @ newline) lines)) (vga con1) = Done w"
    using print_append(2) Cons.prems by (simp add: console_ok_def)
  with Cons.IH [OF l(2)] l(1,3) show ?case by simp
qed simp

lemma irqs_replicate_Step: "irqs (replicate n Step) = []" "count_list (replicate n Step) Step = n"
  "\<not> collides E (replicate n Step) ops inside h kb"
  by (induction n arbitrary: ops inside) (simp_all, metis collides.simps(2,3) neq_Nil_conv)

lemma uninterrupted_log:
  assumes "console_ok (c_console st)" and "\<not> c_held st"
  shows "run_schedule E (replicate (length (code_ops (concat (map log_calls lines)))) Step) (concat (map log_calls lines)) st =
    map_outcome (\<lambda>con. ([], st\<lparr>c_console := con\<rparr>)) (for_each log_line lines (c_console st))"
proof -
  let ?calls = "concat (map log_calls lines)"
  have "resumes st [] ?calls (code_ops ?calls)" using assms by (simp add: resumes_def)
  from schedule_finishes [OF this irqs_replicate_Step(3), of "length (code_ops ?calls)" E]
  show ?thesis
    using for_each_log_line [OF assms(1)] assms(2)
    by (auto simp: finishes_def run_schedule_def irqs_replicate_Step)
qed

section \<open>Properties\<close>

text \<open>C11: The lock keeps lines whole. Take any output of the kernel and any schedule that runs it to its end, with
  timer and keyboard interrupts at any point, such that no key is completed while the lock of the writer
  is held. Then nothing panics or hangs, the screen shows the lines and the typed keys shuffled, each in its
  own order and each in one piece, the serial line has its text unchanged, the uptime has grown by 18 for each
  tick, and the lock is free.\<close>

theorem lines_stay_whole:
  assumes "console_ok (c_console st)" and "\<not> c_held st" and "length (code_ops calls) \<le> count_list es Step"
    and "\<not> collides E es (code_ops calls) False (c_hw st) (c_keyboard st)"
  shows "\<exists>pieces ks h kb w. typed E (irqs es) (c_hw st) (c_keyboard st) = (ks, h, kb) \<and>
    pieces \<in> shuffles (screen_lines calls) ks \<and> vga_print (concat pieces) (vga (c_console st)) = Done w \<and>
    run_schedule E es calls st = Done ([], st\<lparr>c_uptime := c_uptime st + 18 * of_nat (count_list (irqs es) Timer),
      c_held := False, c_console := \<lparr>vga = w, serial = serial (c_console st) @ serial_text calls\<rparr>, c_keyboard := kb, c_hw := h\<rparr>)"
proof -
  have "resumes st [] calls (code_ops calls)" using assms(1,2) by (simp add: resumes_def)
  from schedule_finishes [OF this] assms(2-4) have "finishes E es (code_ops calls) st [] calls" by simp
  then show ?thesis by (simp add: finishes_def run_schedule_def)
qed

text \<open>A tick inside a line, then a key between the line and its serial copy.\<close>

definition sample_schedule :: "cpu_event list" where
  "sample_schedule = [Step, Step, Irq Timer, Step, Step, Irq Keyboard, Step]"

lemma serial_blank: "serial blank_console = []"
  by (simp add: blank_console_def)

theorem lines_stay_whole_witness:
  "\<exists>pieces w. pieces \<in> shuffles [''x'' @ newline] [''A''] \<and> vga_print (concat pieces) (vga blank_console) = Done w \<and>
     run_schedule sample_irq_env sample_schedule (log_calls ''x'') (sample_cpu False) =
       Done ([], \<lparr>c_uptime = 18, c_held = False, c_console = \<lparr>vga = w, serial = ''x'' @ newline\<rparr>, c_keyboard = (),
         c_hw = (0x41, [32, 33])\<rparr>)"
  using lines_stay_whole [of "sample_cpu False" "log_calls ''x''" sample_schedule sample_irq_env]
  by (simp add: sample_schedule_def log_calls_def newline_def sample_cpu_def sample_irq_env_def console_ok_blank
      decode_scancode_def letter serial_blank as_bytes_simps del: shuffles.simps)

text \<open>C26: A key at the wrong moment stops the machine, and nothing else does. A schedule ends in a hang if
  and only if some keyboard interrupt completes a key while the interrupted code holds the lock of the VGA
  writer: the handler then spins on the lock for ever. Every other schedule, finished or not, runs without a panic.\<close>

theorem preemption_hangs_exactly:
  assumes "console_ok (c_console st)" and "\<not> c_held st"
  shows "if collides E es (code_ops calls) False (c_hw st) (c_keyboard st) then run_schedule E es calls st = Panic Hang
    else \<exists>st'. run_schedule E es calls st = Done (drop (count_list es Step) (code_ops calls), st')"
proof -
  have "resumes st [] calls (code_ops calls)" using assms by (simp add: resumes_def)
  from schedule_outcome [OF this, of E es] show ?thesis using assms(2) by (simp add: run_schedule_def)
qed

theorem preemption_hangs_exactly_witness:
  "run_schedule sample_irq_env [Step, Step, Irq Keyboard] (log_calls ''x'') (sample_cpu False) = Panic Hang"
  using preemption_hangs_exactly [of "sample_cpu False" sample_irq_env "[Step, Step, Irq Keyboard]" "log_calls ''x''"]
  by (simp add: log_calls_def newline_def sample_cpu_def sample_irq_env_def console_ok_blank
      decode_scancode_def letter as_bytes_simps)

end
