(* ===== verification/Capability.thy ===== *)
theory Capability
  imports Rust_Std
begin

text \<open>
  The capability store, \<^verbatim>\<open>src/capability.rs\<close>: the kernel's unforgeable tokens, how they are
  issued, looked up and revoked, and the checks \<^verbatim>\<open>can_*\<close> the system calls make.

  The two mutexes \<^verbatim>\<open>CAPABILITY_STORE\<close> and \<^verbatim>\<open>NEXT_CAP_ID\<close> are the two fields of the record
  \<open>cap_state\<close>; each operation takes them for its whole body, so it is one atomic state
  transformer.
\<close>

section \<open>Fresh identifiers: the interface of the kernel's registries\<close>

text \<open>
  Both the capability store and the agent registry hand out identifiers from a counter and
  keep a table from identifiers to values. A client relies on three things: a new identifier
  was not in use, it now denotes the value it was issued for, and every older identifier
  denotes what it denoted before.
\<close>

fun alloc_all :: "('v \<Rightarrow> 's \<Rightarrow> ('k \<times> 's) outcome) \<Rightarrow> 'v list \<Rightarrow> 's \<Rightarrow> ('k list \<times> 's) outcome" where
  "alloc_all alloc [] s = Done ([], s)"
| "alloc_all alloc (v # vs) s =
     obind (alloc v s) (\<lambda>(k, s').
       obind (alloc_all alloc vs s') (\<lambda>(ks, s''). Done (k # ks, s'')))"

locale id_registry =
  fixes alloc :: "'v \<Rightarrow> 's \<Rightarrow> ('k \<times> 's) outcome"
    and entry :: "'s \<Rightarrow> 'k \<Rightarrow> 'v option"
    and room :: "'s \<Rightarrow> nat"
    and reg_ok :: "'s \<Rightarrow> bool"
  assumes alloc_fresh: "reg_ok s \<Longrightarrow> alloc v s = Done (k, s') \<Longrightarrow> entry s k = None"
    and alloc_entry: "reg_ok s \<Longrightarrow> alloc v s = Done (k, s') \<Longrightarrow> entry s' = (entry s)(k \<mapsto> v)"
    and alloc_ok: "reg_ok s \<Longrightarrow> alloc v s = Done (k, s') \<Longrightarrow> reg_ok s'"
    and alloc_room: "reg_ok s \<Longrightarrow> alloc v s = Done (k, s') \<Longrightarrow> room s = Suc (room s')"
    and alloc_total: "reg_ok s \<Longrightarrow> 0 < room s \<Longrightarrow> \<exists>k s'. alloc v s = Done (k, s')"
begin

lemma alloc_all_spec:
  assumes "reg_ok s" and "alloc_all alloc vs s = Done (ks, s')"
  shows "reg_ok s' \<and> length ks = length vs \<and> distinct ks
    \<and> (\<forall>k \<in> set ks. entry s k = None) \<and> entry s' = (entry s)(ks [\<mapsto>] vs)"
  using assms
proof (induction vs arbitrary: s ks)
  case Nil
  then show ?case by simp
next
  case (Cons v vs)
  from Cons.prems(2) obtain k s1 ks1 where a: "alloc v s = Done (k, s1)"
    and r: "alloc_all alloc vs s1 = Done (ks1, s')" and ks: "ks = k # ks1"
    by (auto simp: obind_Done_iff)
  have ok1: "reg_ok s1" and e1: "entry s1 = (entry s)(k \<mapsto> v)" and f1: "entry s k = None"
    using alloc_ok alloc_entry alloc_fresh Cons.prems(1) a by blast+
  from Cons.IH [OF ok1 r] have IH: "reg_ok s'" "length ks1 = length vs" "distinct ks1"
    "\<forall>j \<in> set ks1. entry s1 j = None" "entry s' = (entry s1)(ks1 [\<mapsto>] vs)"
    by blast+
  have "k \<notin> set ks1" using IH(4) e1 by auto
  moreover have "\<forall>j \<in> set ks1. entry s j = None"
    using IH(4) e1 by (metis fun_upd_apply option.distinct(1))
  ultimately show ?case using IH e1 f1 ks by simp
qed

lemma alloc_all_total:
  assumes "reg_ok s" and "length vs \<le> room s"
  shows "\<exists>ks s'. alloc_all alloc vs s = Done (ks, s')"
  using assms
proof (induction vs arbitrary: s)
  case Nil
  then show ?case by simp
next
  case (Cons v vs)
  from Cons.prems have "0 < room s" by simp
  then obtain k s1 where a: "alloc v s = Done (k, s1)"
    using alloc_total Cons.prems(1) by blast
  have "reg_ok s1" and "room s = Suc (room s1)"
    using alloc_ok alloc_room Cons.prems(1) a by blast+
  with Cons.prems(2) have "length vs \<le> room s1" by simp
  with Cons.IH \<open>reg_ok s1\<close> obtain ks s2 where "alloc_all alloc vs s1 = Done (ks, s2)"
    by blast
  with a show ?case by simp
qed

end

section \<open>State and operations\<close>

datatype capability_id = CapabilityId (raw_cap_id: u64)

datatype capability =
    Memory u64 u64 bool bool bool  \<comment> \<open>base, size, read, write, execute\<close>
  | Interrupt u8
  | Port u16
  | Process u64 bool bool  \<comment> \<open>pid, can_send, can_receive\<close>
  | Spawn u32  \<comment> \<open>max_children\<close>
  | Network
  | FileSystem string bool bool  \<comment> \<open>path_prefix, read, write\<close>

record cap_state =
  cap_store :: "capability_id \<Rightarrow> capability option"
  next_cap_id :: u64

definition initial_caps :: cap_state where
  "initial_caps = \<lparr>cap_store = Map.empty, next_cap_id = 1\<rparr>"

definition create_capability :: "capability \<Rightarrow> cap_state \<Rightarrow> (capability_id \<times> cap_state) outcome" where
  "create_capability cap s =
     (let cap_id = CapabilityId (next_cap_id s) in
      obind (word_add (next_cap_id s) 1) (\<lambda>next_id.
        Done (cap_id, \<lparr>cap_store = (cap_store s)(cap_id \<mapsto> cap), next_cap_id = next_id\<rparr>)))"

definition validate_capability :: "cap_state \<Rightarrow> capability_id \<Rightarrow> capability option" where
  "validate_capability s cap_id = cap_store s cap_id"

definition revoke_capability :: "capability_id \<Rightarrow> cap_state \<Rightarrow> bool \<times> cap_state" where
  "revoke_capability cap_id s =
     (cap_store s cap_id \<noteq> None, s\<lparr>cap_store := (cap_store s)(cap_id := None)\<rparr>)"

definition resolved :: "cap_state \<Rightarrow> capability_id list \<Rightarrow> capability list" where
  "resolved s caps = List.map_filter (cap_store s) caps"

definition find_capability ::
    "cap_state \<Rightarrow> capability_id list \<Rightarrow> (capability \<Rightarrow> bool outcome) \<Rightarrow> bool outcome" where
  "find_capability s caps predicate = any_outcome predicate (resolved s caps)"

text \<open>\<^verbatim>\<open>addr >= *base && addr < *base + *size\<close>: the sum is computed only when the first test holds.\<close>

definition in_region :: "u64 \<Rightarrow> u64 \<Rightarrow> u64 \<Rightarrow> bool outcome" where
  "in_region addr base sz =
     (if base \<le> addr then obind (word_add base sz) (\<lambda>top. Done (addr < top)) else Done False)"

definition can_read_memory :: "cap_state \<Rightarrow> capability_id list \<Rightarrow> u64 \<Rightarrow> bool outcome" where
  "can_read_memory s caps addr = find_capability s caps
     (\<lambda>c. case c of Memory base sz True _ _ \<Rightarrow> in_region addr base sz | _ \<Rightarrow> Done False)"

definition can_write_memory :: "cap_state \<Rightarrow> capability_id list \<Rightarrow> u64 \<Rightarrow> bool outcome" where
  "can_write_memory s caps addr = find_capability s caps
     (\<lambda>c. case c of Memory base sz _ True _ \<Rightarrow> in_region addr base sz | _ \<Rightarrow> Done False)"

definition can_send_to :: "cap_state \<Rightarrow> capability_id list \<Rightarrow> u64 \<Rightarrow> bool outcome" where
  "can_send_to s caps target_pid = find_capability s caps
     (\<lambda>c. Done (case c of Process pid True _ \<Rightarrow> pid = target_pid | _ \<Rightarrow> False))"

definition can_spawn :: "cap_state \<Rightarrow> capability_id list \<Rightarrow> bool outcome" where
  "can_spawn s caps = find_capability s caps
     (\<lambda>c. Done (case c of Spawn _ \<Rightarrow> True | _ \<Rightarrow> False))"

definition can_access_network :: "cap_state \<Rightarrow> capability_id list \<Rightarrow> bool outcome" where
  "can_access_network s caps = find_capability s caps
     (\<lambda>c. Done (case c of Network \<Rightarrow> True | _ \<Rightarrow> False))"

definition can_read_file :: "cap_state \<Rightarrow> capability_id list \<Rightarrow> string \<Rightarrow> bool outcome" where
  "can_read_file s caps path = find_capability s caps
     (\<lambda>c. Done (case c of FileSystem path_prefix True _ \<Rightarrow> starts_with path path_prefix | _ \<Rightarrow> False))"

definition can_write_file :: "cap_state \<Rightarrow> capability_id list \<Rightarrow> string \<Rightarrow> bool outcome" where
  "can_write_file s caps path = find_capability s caps
     (\<lambda>c. Done (case c of FileSystem path_prefix _ True \<Rightarrow> starts_with path path_prefix | _ \<Rightarrow> False))"

definition dump_capabilities :: "cap_state \<Rightarrow> capability_id list \<Rightarrow> capability list" where
  "dump_capabilities s caps = resolved s caps"

section \<open>Identifiers in the order they are issued\<close>

text \<open>\<^verbatim>\<open>CapabilityId\<close> derives \<^verbatim>\<open>Ord\<close>: identifiers compare as their numbers.\<close>

instantiation capability_id :: linorder
begin

definition less_eq_capability_id :: "capability_id \<Rightarrow> capability_id \<Rightarrow> bool" where
  "less_eq_capability_id i j \<longleftrightarrow> raw_cap_id i \<le> raw_cap_id j"

definition less_capability_id :: "capability_id \<Rightarrow> capability_id \<Rightarrow> bool" where
  "less_capability_id i j \<longleftrightarrow> raw_cap_id i < raw_cap_id j"

instance
  by standard (auto simp: less_eq_capability_id_def less_capability_id_def capability_id.expand)

end

lemma CapabilityId_less_iff [simp]: "CapabilityId a < CapabilityId b \<longleftrightarrow> a < b"
  by (simp add: less_capability_id_def)

section \<open>The store invariant\<close>

text \<open>Every identifier in use was issued: it lies below the counter, and 0 is never issued.\<close>

definition caps_ok :: "cap_state \<Rightarrow> bool" where
  "caps_ok s \<longleftrightarrow> 0 < next_cap_id s \<and> (\<forall>i. cap_store s i \<noteq> None \<longrightarrow> 0 < raw_cap_id i \<and> raw_cap_id i < next_cap_id s)"

definition cap_room :: "cap_state \<Rightarrow> nat" where
  "cap_room s = 2 ^ 64 - 1 - unat (next_cap_id s)"

lemma caps_ok_initial [simp]: "caps_ok initial_caps"
  by (simp add: caps_ok_def initial_caps_def)

lemma create_capability_Done_iff:
  "create_capability cap s = Done (i, s') \<longleftrightarrow>
     unat (next_cap_id s) + 1 < 2 ^ 64 \<and> i = CapabilityId (next_cap_id s) \<and>
     s' = \<lparr>cap_store = (cap_store s)(i \<mapsto> cap), next_cap_id = next_cap_id s + 1\<rparr>"
  by (auto simp: create_capability_def Let_def obind_Done_iff word_add_Done_iff)

lemma caps_ok_fresh: "caps_ok s \<Longrightarrow> cap_store s (CapabilityId (next_cap_id s)) = None"
  by (auto simp: caps_ok_def)

lemma caps_ok_create:
  assumes "caps_ok s" and "create_capability cap s = Done (i, s')"
  shows "caps_ok s'"
proof -
  from assms(2) have lt: "next_cap_id s < next_cap_id s + 1"
    and s': "s' = \<lparr>cap_store = (cap_store s)(i \<mapsto> cap), next_cap_id = next_cap_id s + 1\<rparr>"
    and i: "i = CapabilityId (next_cap_id s)"
    using word_less_plus_one [of "next_cap_id s"] by (simp_all add: create_capability_Done_iff)
  from assms(1) lt show ?thesis
    by (auto simp: caps_ok_def s' i intro: less_trans)
qed

lemma caps_ok_revoke: "caps_ok s \<Longrightarrow> caps_ok (snd (revoke_capability i s))"
  by (auto simp: caps_ok_def revoke_capability_def)

interpretation capreg: id_registry create_capability validate_capability cap_room caps_ok
proof
  fix s v k s'
  assume ok: "caps_ok s" and c: "create_capability v s = Done (k, s')"
  show "validate_capability s k = None"
    using ok c by (auto simp: create_capability_Done_iff validate_capability_def caps_ok_fresh)
  show "validate_capability s' = (validate_capability s)(k \<mapsto> v)"
    using c by (auto simp: create_capability_Done_iff validate_capability_def)
  show "caps_ok s'" using ok c by (rule caps_ok_create)
  show "cap_room s = Suc (cap_room s')"
    using c unat_plus_one [of "next_cap_id s"] by (auto simp: create_capability_Done_iff cap_room_def)
next
  fix s :: cap_state and v
  assume "0 < cap_room s"
  then show "\<exists>k s'. create_capability v s = Done (k, s')"
    by (simp add: create_capability_Done_iff cap_room_def)
qed

section \<open>What the checks decide\<close>

lemma set_resolved: "set (resolved s caps) = {c. \<exists>i \<in> set caps. cap_store s i = Some c}"
  by (induction caps) (auto simp: resolved_def List.map_filter_simps split: option.splits)

lemma find_capability_pure:
  "find_capability s caps (\<lambda>c. Done (p c)) = Done (\<exists>i \<in> set caps. \<exists>c. cap_store s i = Some c \<and> p c)"
  by (auto simp: find_capability_def any_outcome_pure set_resolved)

lemma cap_case_iffs:
  "(case c of Process pid True _ \<Rightarrow> pid = t | _ \<Rightarrow> False) \<longleftrightarrow> (\<exists>r. c = Process t True r)"
  "(case c of Spawn _ \<Rightarrow> True | _ \<Rightarrow> False) \<longleftrightarrow> (\<exists>n. c = Spawn n)"
  "(case c of Network \<Rightarrow> True | _ \<Rightarrow> False) \<longleftrightarrow> c = Network"
  "(case c of FileSystem pre True _ \<Rightarrow> starts_with path pre | _ \<Rightarrow> False) \<longleftrightarrow>
     (\<exists>pre w. c = FileSystem pre True w \<and> starts_with path pre)"
  "(case c of FileSystem pre _ True \<Rightarrow> starts_with path pre | _ \<Rightarrow> False) \<longleftrightarrow>
     (\<exists>pre r. c = FileSystem pre r True \<and> starts_with path pre)"
  by (cases c; simp split: bool.splits)+

lemma can_send_to_eq:
  "can_send_to s caps t = Done (\<exists>i \<in> set caps. \<exists>r. cap_store s i = Some (Process t True r))"
  unfolding can_send_to_def find_capability_pure cap_case_iffs by auto

lemma can_spawn_eq: "can_spawn s caps = Done (\<exists>i \<in> set caps. \<exists>n. cap_store s i = Some (Spawn n))"
  unfolding can_spawn_def find_capability_pure cap_case_iffs by auto

lemma can_access_network_eq:
  "can_access_network s caps = Done (\<exists>i \<in> set caps. cap_store s i = Some Network)"
  unfolding can_access_network_def find_capability_pure cap_case_iffs by auto

lemma can_read_file_eq:
  "can_read_file s caps path =
     Done (\<exists>i \<in> set caps. \<exists>pre w. cap_store s i = Some (FileSystem pre True w) \<and> starts_with path pre)"
  unfolding can_read_file_def find_capability_pure cap_case_iffs by auto

lemma can_write_file_eq:
  "can_write_file s caps path =
     Done (\<exists>i \<in> set caps. \<exists>pre r. cap_store s i = Some (FileSystem pre r True) \<and> starts_with path pre)"
  unfolding can_write_file_def find_capability_pure cap_case_iffs by auto

lemmas can_eqs = can_send_to_eq can_spawn_eq can_access_network_eq can_read_file_eq can_write_file_eq

section \<open>Memory regions\<close>

definition region_fits :: "u64 \<Rightarrow> u64 \<Rightarrow> bool" where
  "region_fits base sz \<longleftrightarrow> unat base + unat sz < 2 ^ 64"

lemma in_region_eq:
  assumes "region_fits base sz"
  shows "in_region addr base sz = Done (unat base \<le> unat addr \<and> unat addr < unat base + unat sz)"
  using assms unat_add_no_overflow [of base sz]
  by (auto simp: in_region_def region_fits_def word_add_def word_le_nat_alt word_less_nat_alt)

lemma in_region_overflow:
  "\<not> region_fits base sz \<Longrightarrow> base \<le> addr \<Longrightarrow> in_region addr base sz = Panic ArithOverflow"
  by (simp add: in_region_def region_fits_def word_add_def)

definition regions_fit :: "cap_state \<Rightarrow> capability_id list \<Rightarrow> bool" where
  "regions_fit s caps \<longleftrightarrow>
     list_all (\<lambda>c. case c of Memory base sz _ _ _ \<Rightarrow> region_fits base sz | _ \<Rightarrow> True) (resolved s caps)"

lemma find_region_eq:
  assumes "regions_fit s caps"
    and "\<And>base sz r w x. p (Memory base sz r w x) = (if q r w then in_region addr base sz else Done False)"
    and "\<And>c. (\<And>base sz r w x. c \<noteq> Memory base sz r w x) \<Longrightarrow> p c = Done False"
  shows "find_capability s caps p = Done (\<exists>i \<in> set caps. \<exists>base sz r w x.
    cap_store s i = Some (Memory base sz r w x) \<and> q r w \<and>
    unat base \<le> unat addr \<and> unat addr < unat base + unat sz)"
proof -
  let ?q = "\<lambda>c. \<exists>base sz r w x. c = Memory base sz r w x \<and> q r w \<and>
    unat base \<le> unat addr \<and> unat addr < unat base + unat sz"
  have "p c = Done (?q c)" if "c \<in> set (resolved s caps)" for c
  proof (cases "\<exists>base sz r w x. c = Memory base sz r w x")
    case True
    then obtain base sz r w x where c: "c = Memory base sz r w x" by blast
    with that assms(1) have "region_fits base sz"
      by (auto simp: regions_fit_def list_all_iff)
    with c assms(2) show ?thesis by (auto simp: in_region_eq)
  next
    case False
    then show ?thesis using assms(3) [of c] by auto
  qed
  then have "find_capability s caps p = Done (\<exists>c \<in> set (resolved s caps). ?q c)"
    unfolding find_capability_def by (rule any_outcome_total)
  moreover have "(\<exists>c \<in> set (resolved s caps). ?q c) \<longleftrightarrow> (\<exists>i \<in> set caps. \<exists>base sz r w x.
    cap_store s i = Some (Memory base sz r w x) \<and> q r w \<and>
    unat base \<le> unat addr \<and> unat addr < unat base + unat sz)"
    unfolding set_resolved by blast
  ultimately show ?thesis by simp
qed

section \<open>Properties\<close>

text \<open>C9: \<^verbatim>\<open>create_capability\<close> issues unforgeable, unique tokens. From a well-formed store, any
  batch of creations that fits the 64-bit counter succeeds; the identifiers are pairwise
  distinct and were not in use; afterwards each validates to exactly the capability it was
  created for, every other identifier validates as before, and the store stays well formed.\<close>

theorem create_capability_unforgeable:
  assumes "caps_ok s" and "length cs \<le> cap_room s"
  shows "\<exists>ids s'. alloc_all create_capability cs s = Done (ids, s') \<and> caps_ok s' \<and>
    length ids = length cs \<and> distinct ids \<and> list_all (\<lambda>i. validate_capability s i = None) ids \<and>
    validate_capability s' = (validate_capability s)(ids [\<mapsto>] cs)"
proof -
  obtain ids s' where r: "alloc_all create_capability cs s = Done (ids, s')"
    using capreg.alloc_all_total [OF assms] by blast
  with capreg.alloc_all_spec [OF assms(1) r] show ?thesis by (auto simp: list_all_iff)
qed

theorem create_capability_unforgeable_witness:
  "caps_ok initial_caps \<and> length [Network, Spawn 10] \<le> cap_room initial_caps \<and>
   (\<exists>ids s'. alloc_all create_capability [Network, Spawn 10] initial_caps = Done (ids, s') \<and> caps_ok s' \<and>
    length ids = length [Network, Spawn 10] \<and> distinct ids \<and>
    list_all (\<lambda>i. validate_capability initial_caps i = None) ids \<and>
    validate_capability s' = (validate_capability initial_caps)(ids [\<mapsto>] [Network, Spawn 10]))"
proof -
  have r: "length [Network, Spawn 10] \<le> cap_room initial_caps"
    by (simp add: cap_room_def initial_caps_def)
  show ?thesis using create_capability_unforgeable [OF caps_ok_initial r] r by simp
qed

lemma issued_stays_dead:
  assumes "caps_ok s" and "raw_cap_id i < next_cap_id s" and "validate_capability s i = None"
    and "alloc_all create_capability cs s = Done (ids, s')"
  shows "validate_capability s' i = None"
  using assms
proof (induction cs arbitrary: s ids)
  case Nil
  then show ?case by simp
next
  case (Cons c cs)
  then obtain k s1 ids1 where c: "create_capability c s = Done (k, s1)"
    and r: "alloc_all create_capability cs s1 = Done (ids1, s')"
    by (auto simp: obind_Done_iff)
  from c have k: "k = CapabilityId (next_cap_id s)"
    and s1: "s1 = \<lparr>cap_store = (cap_store s)(k \<mapsto> c), next_cap_id = next_cap_id s + 1\<rparr>"
    and lt: "next_cap_id s < next_cap_id s + 1"
    using word_less_plus_one [of "next_cap_id s"] by (simp_all add: create_capability_Done_iff)
  have "i \<noteq> k" using Cons.prems(2) k by (cases i) auto
  then have "validate_capability s1 i = None"
    using Cons.prems(3) by (simp add: s1 validate_capability_def)
  moreover have "raw_cap_id i < next_cap_id s1" using Cons.prems(2) lt by (simp add: s1)
  ultimately show ?case using Cons.IH caps_ok_create [OF Cons.prems(1) c] r by blast
qed

text \<open>C32: Revocation is final. Revoking a live capability reports success, removes that
  capability only, and no later sequence of creations ever makes the revoked identifier valid
  again: identifiers are not reused.\<close>

theorem revoked_capability_stays_dead:
  assumes "caps_ok s" and "validate_capability s i = Some c"
    and "alloc_all create_capability cs (snd (revoke_capability i s)) = Done (ids, s')"
  shows "fst (revoke_capability i s)
    \<and> (\<forall>j. j \<noteq> i \<longrightarrow> validate_capability (snd (revoke_capability i s)) j = validate_capability s j)
    \<and> validate_capability s' i = None"
proof -
  have "raw_cap_id i < next_cap_id (snd (revoke_capability i s))"
    using assms(1,2) by (auto simp: caps_ok_def validate_capability_def revoke_capability_def)
  moreover have "validate_capability (snd (revoke_capability i s)) i = None"
    by (simp add: validate_capability_def revoke_capability_def)
  ultimately have "validate_capability s' i = None"
    using issued_stays_dead caps_ok_revoke assms(1,3) by blast
  with assms(2) show ?thesis by (simp add: validate_capability_def revoke_capability_def)
qed

theorem revoked_capability_stays_dead_witness:
  "\<exists>s. caps_ok s \<and> validate_capability s (CapabilityId 1) = Some Network \<and>
     (\<exists>ids s'. alloc_all create_capability [Spawn 5] (snd (revoke_capability (CapabilityId 1) s)) = Done (ids, s')
        \<and> fst (revoke_capability (CapabilityId 1) s) \<and> validate_capability s' (CapabilityId 1) = None)"
proof -
  let ?s = "\<lparr>cap_store = [CapabilityId 1 \<mapsto> Network], next_cap_id = 2\<rparr>"
  have ok: "caps_ok ?s" by (simp add: caps_ok_def)
  have v: "validate_capability ?s (CapabilityId 1) = Some Network"
    by (simp add: validate_capability_def)
  have r: "alloc_all create_capability [Spawn 5] (snd (revoke_capability (CapabilityId 1) ?s))
    = Done ([CapabilityId 2], \<lparr>cap_store = [CapabilityId 2 \<mapsto> Spawn 5], next_cap_id = 3\<rparr>)"
    by (simp add: revoke_capability_def create_capability_def word_add_def Let_def)
  show ?thesis using revoked_capability_stays_dead [OF ok v r] ok v r by blast
qed

text \<open>C33: The memory checks are exact. When no region capability of the list runs past the end of
  the address space, \<^verbatim>\<open>can_read_memory\<close> and \<^verbatim>\<open>can_write_memory\<close> do not panic and answer whether
  some live capability of the list covers the address with the right asked for.\<close>

theorem memory_checks_exact:
  assumes "regions_fit s caps"
  shows "can_read_memory s caps addr = Done (\<exists>i \<in> set caps. \<exists>base sz r w x.
      cap_store s i = Some (Memory base sz r w x) \<and> r \<and>
      unat base \<le> unat addr \<and> unat addr < unat base + unat sz) \<and>
    can_write_memory s caps addr = Done (\<exists>i \<in> set caps. \<exists>base sz r w x.
      cap_store s i = Some (Memory base sz r w x) \<and> w \<and>
      unat base \<le> unat addr \<and> unat addr < unat base + unat sz)"
proof
  show "can_read_memory s caps addr = Done (\<exists>i \<in> set caps. \<exists>base sz r w x.
      cap_store s i = Some (Memory base sz r w x) \<and> r \<and>
      unat base \<le> unat addr \<and> unat addr < unat base + unat sz)"
    unfolding can_read_memory_def
    by (rule find_region_eq [OF assms]) (auto split: capability.splits)
  show "can_write_memory s caps addr = Done (\<exists>i \<in> set caps. \<exists>base sz r w x.
      cap_store s i = Some (Memory base sz r w x) \<and> w \<and>
      unat base \<le> unat addr \<and> unat addr < unat base + unat sz)"
    unfolding can_write_memory_def
    by (rule find_region_eq [OF assms]) (auto split: capability.splits)
qed

theorem memory_checks_exact_witness:
  "regions_fit \<lparr>cap_store = [CapabilityId 1 \<mapsto> Memory 4096 4096 True False False], next_cap_id = 2\<rparr> [CapabilityId 1] \<and>
   can_read_memory \<lparr>cap_store = [CapabilityId 1 \<mapsto> Memory 4096 4096 True False False], next_cap_id = 2\<rparr>
     [CapabilityId 1] 8191 = Done True \<and>
   can_write_memory \<lparr>cap_store = [CapabilityId 1 \<mapsto> Memory 4096 4096 True False False], next_cap_id = 2\<rparr>
     [CapabilityId 1] 8191 = Done False"
proof -
  let ?s = "\<lparr>cap_store = [CapabilityId 1 \<mapsto> Memory 4096 4096 True False False], next_cap_id = 2\<rparr>"
  have fit: "regions_fit ?s [CapabilityId 1]"
    by (simp add: regions_fit_def resolved_def List.map_filter_simps region_fits_def)
  show ?thesis using memory_checks_exact [OF fit, of 8191] fit by auto
qed

end
