(* ===== verification/Task.thy ===== *)
theory Task
  imports Capability
begin

text \<open>
  The agent registry, \<^verbatim>\<open>src/task.rs\<close>: agents with a name, a list of capability identifiers
  and a life-cycle state. \<open>registry\<close> is the content of the mutex \<^verbatim>\<open>REGISTRY\<close>.
\<close>

section \<open>State and operations\<close>

datatype agent_id = AgentId (raw_agent_id: u64)

datatype agent_state = Running | Terminated

record agent =
  ag_id :: agent_id
  ag_name :: string
  ag_capabilities :: "capability_id list"
  ag_state :: agent_state

record registry =
  agents :: "agent_id \<Rightarrow> agent option"
  next_agent_id :: u64

definition new_registry :: registry where
  "new_registry = \<lparr>agents = Map.empty, next_agent_id = 1\<rparr>"

definition spawn_agent ::
    "string \<Rightarrow> capability_id list \<Rightarrow> registry \<Rightarrow> (agent_id \<times> registry) outcome" where
  "spawn_agent name capabilities reg =
     (let i = AgentId (next_agent_id reg) in
      obind (word_add (next_agent_id reg) 1) (\<lambda>next_id.
        Done (i, \<lparr>agents = (agents reg)(i \<mapsto>
                    \<lparr>ag_id = i, ag_name = name, ag_capabilities = capabilities, ag_state = Running\<rparr>),
                  next_agent_id = next_id\<rparr>)))"

definition agent_capabilities :: "registry \<Rightarrow> agent_id \<Rightarrow> capability_id list" where
  "agent_capabilities reg i = (case agents reg i of None \<Rightarrow> [] | Some a \<Rightarrow> ag_capabilities a)"

definition agent_pid :: "agent_id \<Rightarrow> u64" where
  "agent_pid i = raw_agent_id i"

definition grant_capability_to_agent :: "agent_id \<Rightarrow> capability_id \<Rightarrow> registry \<Rightarrow> registry" where
  "grant_capability_to_agent i cap reg =
     (case agents reg i of
        None \<Rightarrow> reg
      | Some a \<Rightarrow> reg\<lparr>agents := (agents reg)(i \<mapsto> a\<lparr>ag_capabilities := ag_capabilities a @ [cap]\<rparr>)\<rparr>)"

definition terminate_agent :: "agent_id \<Rightarrow> registry \<Rightarrow> registry" where
  "terminate_agent i reg =
     (case agents reg i of
        None \<Rightarrow> reg
      | Some a \<Rightarrow> reg\<lparr>agents := (agents reg)(i \<mapsto> a\<lparr>ag_state := Terminated\<rparr>)\<rparr>)"

definition agent_name :: "registry \<Rightarrow> agent_id \<Rightarrow> string option" where
  "agent_name reg i = map_option ag_name (agents reg i)"

section \<open>The registry invariant\<close>

definition registry_ok :: "registry \<Rightarrow> bool" where
  "registry_ok reg \<longleftrightarrow> 0 < next_agent_id reg \<and>
     (\<forall>i a. agents reg i = Some a \<longrightarrow>
        ag_id a = i \<and> 0 < raw_agent_id i \<and> raw_agent_id i < next_agent_id reg)"

definition agent_room :: "registry \<Rightarrow> nat" where
  "agent_room reg = 2 ^ 64 - 1 - unat (next_agent_id reg)"

text \<open>What a registry entry says about an agent besides its identifier and state.\<close>

definition agent_entry :: "registry \<Rightarrow> agent_id \<Rightarrow> (string \<times> capability_id list) option" where
  "agent_entry reg i = map_option (\<lambda>a. (ag_name a, ag_capabilities a)) (agents reg i)"

definition spawn_entry ::
    "string \<times> capability_id list \<Rightarrow> registry \<Rightarrow> (agent_id \<times> registry) outcome" where
  "spawn_entry = (\<lambda>(name, caps). spawn_agent name caps)"

lemma registry_ok_new [simp]: "registry_ok new_registry"
  by (simp add: registry_ok_def new_registry_def)

lemma spawn_agent_Done_iff:
  "spawn_agent name caps reg = Done (i, reg') \<longleftrightarrow>
     unat (next_agent_id reg) + 1 < 2 ^ 64 \<and> i = AgentId (next_agent_id reg) \<and>
     reg' = \<lparr>agents = (agents reg)(i \<mapsto>
               \<lparr>ag_id = i, ag_name = name, ag_capabilities = caps, ag_state = Running\<rparr>),
             next_agent_id = next_agent_id reg + 1\<rparr>"
  by (auto simp: spawn_agent_def Let_def obind_Done_iff word_add_Done_iff)

lemma registry_ok_spawn:
  assumes "registry_ok reg" and "spawn_agent name caps reg = Done (i, reg')"
  shows "registry_ok reg'"
proof -
  have "next_agent_id reg < next_agent_id reg + 1"
    using assms(2) word_less_plus_one [of "next_agent_id reg"] by (simp add: spawn_agent_Done_iff)
  with assms show ?thesis
    by (auto simp: registry_ok_def spawn_agent_Done_iff intro: less_trans)
qed

lemma registry_ok_grant: "registry_ok reg \<Longrightarrow> registry_ok (grant_capability_to_agent i c reg)"
  by (auto simp: registry_ok_def grant_capability_to_agent_def split: option.splits)

lemma registry_ok_terminate: "registry_ok reg \<Longrightarrow> registry_ok (terminate_agent i reg)"
  by (auto simp: registry_ok_def terminate_agent_def split: option.splits)

interpretation agentreg: id_registry spawn_entry agent_entry agent_room registry_ok
proof
  fix reg v i reg'
  assume ok: "registry_ok reg" and sp: "spawn_entry v reg = Done (i, reg')"
  obtain name caps where v: "v = (name, caps)" by (cases v)
  with sp have sp': "spawn_agent name caps reg = Done (i, reg')" by (simp add: spawn_entry_def)
  show "agent_entry reg i = None"
    using ok sp' by (auto simp: registry_ok_def spawn_agent_Done_iff agent_entry_def)
      (metis agent_id.sel less_irrefl option.exhaust)
  show "agent_entry reg' = (agent_entry reg)(i \<mapsto> v)"
    using sp' v by (auto simp: spawn_agent_Done_iff agent_entry_def)
  show "registry_ok reg'" using ok sp' by (rule registry_ok_spawn)
  show "agent_room reg = Suc (agent_room reg')"
    using sp' unat_plus_one [of "next_agent_id reg"]
    by (auto simp: spawn_agent_Done_iff agent_room_def)
next
  fix reg :: registry and v
  assume "0 < agent_room reg"
  then show "\<exists>i reg'. spawn_entry v reg = Done (i, reg')"
    by (cases v) (simp add: spawn_entry_def spawn_agent_Done_iff agent_room_def)
qed

section \<open>Capability lists\<close>

lemma agent_capabilities_grant [simp]:
  "agent_capabilities (grant_capability_to_agent i c reg) j =
     (if i = j \<and> agents reg i \<noteq> None then agent_capabilities reg j @ [c] else agent_capabilities reg j)"
  by (auto simp: agent_capabilities_def grant_capability_to_agent_def split: option.splits)

lemma agent_capabilities_terminate [simp]:
  "agent_capabilities (terminate_agent i reg) j = agent_capabilities reg j"
  by (auto simp: agent_capabilities_def terminate_agent_def split: option.splits)

lemma agent_known_grant [simp]:
  "agents (grant_capability_to_agent i c reg) j = None \<longleftrightarrow> agents reg j = None"
  by (auto simp: grant_capability_to_agent_def split: option.splits)

lemma agent_capabilities_spawn:
  assumes "registry_ok reg" and "spawn_agent name caps reg = Done (i, reg')"
  shows "agent_capabilities reg' j = (if j = i then caps else agent_capabilities reg j)"
  using assms by (auto simp: spawn_agent_Done_iff agent_capabilities_def)

lemma agent_capabilities_unknown: "agents reg i = None \<Longrightarrow> agent_capabilities reg i = []"
  by (simp add: agent_capabilities_def)

section \<open>Properties\<close>

text \<open>C34: Agents never share an identity. From a well-formed registry any batch of spawns that
  fits the 64-bit counter succeeds, with pairwise distinct identifiers that no agent had
  before; each new agent carries exactly the name and capability list it was spawned with and
  no other agent's entry changes.\<close>

theorem spawn_agents_distinct:
  assumes "registry_ok reg" and "length specs \<le> agent_room reg"
  shows "\<exists>ids reg'. alloc_all spawn_entry specs reg = Done (ids, reg') \<and> registry_ok reg' \<and>
    length ids = length specs \<and> distinct ids \<and> list_all (\<lambda>i. agent_entry reg i = None) ids \<and>
    agent_entry reg' = (agent_entry reg)(ids [\<mapsto>] specs)"
proof -
  obtain ids reg' where r: "alloc_all spawn_entry specs reg = Done (ids, reg')"
    using agentreg.alloc_all_total [OF assms] by blast
  with agentreg.alloc_all_spec [OF assms(1) r] show ?thesis by (auto simp: list_all_iff)
qed

theorem spawn_agents_distinct_witness:
  "registry_ok new_registry \<and>
   length [(''openclaw_core'', [CapabilityId 1]), (''skill'', [])] \<le> agent_room new_registry \<and>
   (\<exists>ids reg'. alloc_all spawn_entry [(''openclaw_core'', [CapabilityId 1]), (''skill'', [])] new_registry
       = Done (ids, reg') \<and> length ids = 2 \<and> distinct ids)"
proof -
  have r: "length [(''openclaw_core'', [CapabilityId 1]), (''skill'', [])] \<le> agent_room new_registry"
    by (simp add: agent_room_def new_registry_def)
  from spawn_agents_distinct [OF registry_ok_new r] show ?thesis using r by auto
qed

text \<open>C35: The life of an agent's capability list. Spawning sets it, granting appends one
  capability to a known agent and to no other (and is silently ignored for an unknown one), and
  terminating an agent marks it \<^verbatim>\<open>Terminated\<close> but leaves the capability list of every agent,
  the terminated one included, as it was: nothing is revoked.\<close>

theorem agent_capability_lifecycle:
  assumes "registry_ok reg" and "spawn_agent name caps reg = Done (i, reg1)"
  shows "agent_capabilities reg1 i = caps
    \<and> agent_capabilities (grant_capability_to_agent i c reg1) i = caps @ [c]
    \<and> (\<forall>j. j \<noteq> i \<longrightarrow> agent_capabilities (grant_capability_to_agent i c reg1) j = agent_capabilities reg j)
    \<and> (\<forall>j. agents reg1 j = None \<longrightarrow> grant_capability_to_agent j c reg1 = reg1)
    \<and> map_option ag_state (agents (terminate_agent i reg1) i) = Some Terminated
    \<and> agent_capabilities (terminate_agent i reg1) = agent_capabilities reg1"
proof -
  have known: "agents reg1 i \<noteq> None" using assms(2) by (auto simp: spawn_agent_Done_iff)
  have noop: "\<forall>j. agents reg1 j = None \<longrightarrow> grant_capability_to_agent j c reg1 = reg1"
    by (simp add: grant_capability_to_agent_def)
  have "map_option ag_state (agents (terminate_agent i reg1) i) = Some Terminated"
    using known by (auto simp: terminate_agent_def)
  moreover have "agent_capabilities (terminate_agent i reg1) = agent_capabilities reg1"
    by (rule ext) simp
  ultimately show ?thesis
    using known noop by (simp add: agent_capabilities_spawn [OF assms])
qed

theorem agent_capability_lifecycle_witness:
  "\<exists>i reg1. spawn_agent ''a'' [CapabilityId 7] new_registry = Done (i, reg1)
    \<and> agent_capabilities (grant_capability_to_agent i (CapabilityId 9) reg1) i = [CapabilityId 7, CapabilityId 9]
    \<and> agent_capabilities (terminate_agent i reg1) i = [CapabilityId 7]"
proof -
  obtain i reg1 where sp: "spawn_agent ''a'' [CapabilityId 7] new_registry = Done (i, reg1)"
    by (simp add: spawn_agent_Done_iff new_registry_def)
  from agent_capability_lifecycle [OF registry_ok_new sp, of "CapabilityId 9"] sp
  show ?thesis by auto
qed

end
