(* ===== verification/Ipc.thy ===== *)
theory Ipc
  imports Capability
begin

text \<open>
  Message passing, \<^verbatim>\<open>src/ipc.rs\<close>: one bounded mailbox per process, sends that are checked
  against the capability store, and first-in first-out delivery. \<open>ipc_state\<close> is the content
  of the mutex \<^verbatim>\<open>IPC_ENDPOINTS\<close>.
\<close>

section \<open>Bounded channels: specification and interface\<close>

text \<open>
  The abstract mailbox is a list with a capacity. A send is accepted when the item is
  acceptable and there is room; a receive takes the oldest item.
\<close>

datatype 'a chan_op = Put 'a | Take

datatype 'a chan_res = Accepted | Rejected | Got 'a | Nothing

fun fifo_step :: "('a \<Rightarrow> bool) \<Rightarrow> nat \<Rightarrow> 'a chan_op \<Rightarrow> 'a list \<Rightarrow> 'a chan_res \<times> 'a list" where
  "fifo_step ok cap (Put a) xs = (if ok a \<and> length xs < cap then (Accepted, xs @ [a]) else (Rejected, xs))"
| "fifo_step ok cap Take xs = (case xs of [] \<Rightarrow> (Nothing, []) | a # as \<Rightarrow> (Got a, as))"

fun chan_step :: "('a \<Rightarrow> 'q \<Rightarrow> 'q option) \<Rightarrow> ('q \<Rightarrow> ('a \<times> 'q) option) \<Rightarrow> 'a chan_op \<Rightarrow> 'q \<Rightarrow> 'a chan_res \<times> 'q" where
  "chan_step put get (Put a) q = (case put a q of None \<Rightarrow> (Rejected, q) | Some q' \<Rightarrow> (Accepted, q'))"
| "chan_step put get Take q = (case get q of None \<Rightarrow> (Nothing, q) | Some (a, q') \<Rightarrow> (Got a, q'))"

locale bounded_channel =
  fixes put :: "'a \<Rightarrow> 'q \<Rightarrow> 'q option"
    and take_item :: "'q \<Rightarrow> ('a \<times> 'q) option"
    and items :: "'q \<Rightarrow> 'a list"
    and capacity :: "'q \<Rightarrow> nat"
    and acceptable :: "'a \<Rightarrow> bool"
  assumes put_accepts: "acceptable a \<Longrightarrow> length (items q) < capacity q \<Longrightarrow>
      \<exists>q'. put a q = Some q' \<and> items q' = items q @ [a] \<and> capacity q' = capacity q"
    and put_rejects: "\<not> acceptable a \<or> capacity q \<le> length (items q) \<Longrightarrow> put a q = None"
    and take_empty: "items q = [] \<Longrightarrow> take_item q = None"
    and take_oldest: "items q = a # as \<Longrightarrow>
      \<exists>q'. take_item q = Some (a, q') \<and> items q' = as \<and> capacity q' = capacity q"
begin

lemma chan_step_refines:
  assumes "chan_step put take_item a q = (r, q')"
  shows "fifo_step acceptable (capacity q) a (items q) = (r, items q') \<and> capacity q' = capacity q"
proof (cases a)
  case (Put x)
  show ?thesis
  proof (cases "acceptable x \<and> length (items q) < capacity q")
    case True
    with put_accepts [of x q] Put assms show ?thesis by auto
  next
    case False
    then have "put x q = None" using put_rejects [of x q] by auto
    with False Put assms show ?thesis by auto
  qed
next
  case Take
  show ?thesis
  proof (cases "items q")
    case Nil
    with take_empty [OF Nil] Take assms show ?thesis by auto
  next
    case (Cons y ys)
    with take_oldest [OF Cons] Take assms show ?thesis by auto
  qed
qed

lemma run_refines:
  assumes "run_ops (chan_step put take_item) as q = (rs, q')"
  shows "run_ops (fifo_step acceptable (capacity q)) as (items q) = (rs, items q')
    \<and> capacity q' = capacity q"
  using assms
proof (induction as arbitrary: q rs)
  case Nil
  then show ?case by simp
next
  case (Cons a as)
  obtain r q1 where s: "chan_step put take_item a q = (r, q1)" by force
  obtain rs1 where t: "run_ops (chan_step put take_item) as q1 = (rs1, q')" and rs: "rs = r # rs1"
    using Cons.prems s by (auto split: prod.splits)
  from chan_step_refines [OF s] Cons.IH [OF t] show ?case by (auto simp: rs)
qed

end

section \<open>State and operations\<close>

datatype process_id = ProcessId (raw_pid: u64)

definition KERNEL_SUPERVISOR_PID :: process_id where
  "KERNEL_SUPERVISOR_PID = ProcessId 0"

record message =
  sender :: process_id
  msg_data :: "u8 list"
  msg_capabilities :: "capability_id list"

record ipc_endpoint =
  messages :: "message list"
  max_messages :: usize

type_synonym ipc_state = "process_id \<Rightarrow> ipc_endpoint option"

definition ipc_init :: "ipc_state \<Rightarrow> ipc_state" where
  "ipc_init eps = eps(KERNEL_SUPERVISOR_PID \<mapsto> \<lparr>messages = [], max_messages = 64\<rparr>)"

definition create_endpoint :: "process_id \<Rightarrow> ipc_state \<Rightarrow> (string + unit) \<times> ipc_state" where
  "create_endpoint p eps =
     (if eps p \<noteq> None then (Inl ''Endpoint already exists'', eps)
      else (Inr (), eps(p \<mapsto> \<lparr>messages = [], max_messages = 32\<rparr>)))"

definition send_message ::
    "cap_state \<Rightarrow> process_id \<Rightarrow> process_id \<Rightarrow> u8 list \<Rightarrow> capability_id list \<Rightarrow> ipc_state
      \<Rightarrow> (string + unit) \<times> ipc_state" where
  "send_message cs from recipient dat capabilities eps =
     (if list_ex (\<lambda>cap_id. validate_capability cs cap_id = None) capabilities
      then (Inl ''Invalid capability'', eps)
      else case eps recipient of
        None \<Rightarrow> (Inl ''No such endpoint'', eps)
      | Some ep \<Rightarrow>
          if length (messages ep) \<ge> max_messages ep then (Inl ''Message queue full'', eps)
          else (Inr (), eps(recipient \<mapsto> ep\<lparr>messages := messages ep @
                 [\<lparr>sender = from, msg_data = dat, msg_capabilities = capabilities\<rparr>]\<rparr>)))"

definition receive_message :: "process_id \<Rightarrow> ipc_state \<Rightarrow> message option \<times> ipc_state" where
  "receive_message p eps =
     (case eps p of
        None \<Rightarrow> (None, eps)
      | Some ep \<Rightarrow>
          (case messages ep of
             [] \<Rightarrow> (None, eps)
           | m # ms \<Rightarrow> (Some m, eps(p \<mapsto> ep\<lparr>messages := ms\<rparr>))))"

section \<open>Invariant\<close>

text \<open>No mailbox ever holds more than its limit.\<close>

definition ipc_ok :: "ipc_state \<Rightarrow> bool" where
  "ipc_ok eps \<longleftrightarrow> (\<forall>p ep. eps p = Some ep \<longrightarrow> length (messages ep) \<le> max_messages ep)"

lemma ipc_ok_empty [simp]: "ipc_ok Map.empty"
  by (simp add: ipc_ok_def)

lemma ipc_ok_init: "ipc_ok eps \<Longrightarrow> ipc_ok (ipc_init eps)"
  by (simp add: ipc_ok_def ipc_init_def)

lemma ipc_ok_create: "ipc_ok eps \<Longrightarrow> ipc_ok (snd (create_endpoint p eps))"
  by (simp add: ipc_ok_def create_endpoint_def)

lemma ipc_ok_send: "ipc_ok eps \<Longrightarrow> ipc_ok (snd (send_message cs f t d cl eps))"
  by (auto simp: ipc_ok_def send_message_def split: option.splits)

lemma ipc_ok_receive: "ipc_ok eps \<Longrightarrow> ipc_ok (snd (receive_message p eps))"
  by (fastforce simp: ipc_ok_def receive_message_def split: option.splits list.splits)

lemmas ipc_ok_intros = ipc_ok_init ipc_ok_create ipc_ok_send ipc_ok_receive

lemma send_message_other: "q \<noteq> t \<Longrightarrow> snd (send_message cs f t d cl eps) q = eps q"
  by (auto simp: send_message_def split: option.splits)

lemma receive_message_other: "q \<noteq> p \<Longrightarrow> snd (receive_message p eps) q = eps q"
  by (auto simp: receive_message_def split: option.splits list.splits)

lemma send_message_dom: "(snd (send_message cs f t d cl eps) q = None) \<longleftrightarrow> eps q = None"
  by (auto simp: send_message_def split: option.splits)

section \<open>One process's mailbox as a bounded channel\<close>

definition mailbox :: "process_id \<Rightarrow> ipc_state \<Rightarrow> message list" where
  "mailbox p eps = (case eps p of None \<Rightarrow> [] | Some ep \<Rightarrow> messages ep)"

definition mailbox_limit :: "process_id \<Rightarrow> ipc_state \<Rightarrow> nat" where
  "mailbox_limit p eps = (case eps p of None \<Rightarrow> 0 | Some ep \<Rightarrow> max_messages ep)"

definition sendable :: "cap_state \<Rightarrow> message \<Rightarrow> bool" where
  "sendable cs m \<longleftrightarrow> list_all (\<lambda>i. validate_capability cs i \<noteq> None) (msg_capabilities m)"

definition post :: "cap_state \<Rightarrow> process_id \<Rightarrow> message \<Rightarrow> ipc_state \<Rightarrow> ipc_state option" where
  "post cs p m eps =
     (case send_message cs (sender m) p (msg_data m) (msg_capabilities m) eps of
        (Inl e, _) \<Rightarrow> None
      | (Inr u, eps') \<Rightarrow> Some eps')"

definition fetch :: "process_id \<Rightarrow> ipc_state \<Rightarrow> (message \<times> ipc_state) option" where
  "fetch p eps = (case receive_message p eps of (None, _) \<Rightarrow> None | (Some m, eps') \<Rightarrow> Some (m, eps'))"

lemma not_list_ex_invalid:
  "list_ex (\<lambda>i. validate_capability cs i = None) cl \<longleftrightarrow> \<not> list_all (\<lambda>i. validate_capability cs i \<noteq> None) cl"
  by (auto simp: list_ex_iff list_all_iff)

lemma post_eq:
  "post cs p m eps =
     (case eps p of
        None \<Rightarrow> None
      | Some ep \<Rightarrow> if sendable cs m \<and> length (messages ep) < max_messages ep
          then Some (eps(p \<mapsto> ep\<lparr>messages := messages ep @ [m]\<rparr>)) else None)"
  unfolding post_def send_message_def not_list_ex_invalid sendable_def [symmetric]
  by (cases "eps p") auto

lemma fetch_eq:
  "fetch p eps =
     (case eps p of
        None \<Rightarrow> None
      | Some ep \<Rightarrow> (case messages ep of [] \<Rightarrow> None
          | m # ms \<Rightarrow> Some (m, eps(p \<mapsto> ep\<lparr>messages := ms\<rparr>))))"
  by (simp add: fetch_def receive_message_def split: option.split list.split)

interpretation mbox: bounded_channel "post cs p" "fetch p" "mailbox p" "mailbox_limit p" "sendable cs"
  for cs p
proof
  fix m eps
  assume "sendable cs m" and "length (mailbox p eps) < mailbox_limit p eps"
  then show "\<exists>eps'. post cs p m eps = Some eps' \<and> mailbox p eps' = mailbox p eps @ [m] \<and>
      mailbox_limit p eps' = mailbox_limit p eps"
    by (cases "eps p") (auto simp: post_eq mailbox_def mailbox_limit_def)
next
  fix m eps
  assume "\<not> sendable cs m \<or> mailbox_limit p eps \<le> length (mailbox p eps)"
  then show "post cs p m eps = None"
    by (cases "eps p") (auto simp: post_eq mailbox_def mailbox_limit_def)
next
  fix eps
  assume "mailbox p eps = []"
  then show "fetch p eps = None"
    by (cases "eps p") (auto simp: fetch_eq mailbox_def)
next
  fix eps m ms
  assume "mailbox p eps = m # ms"
  then show "\<exists>eps'. fetch p eps = Some (m, eps') \<and> mailbox p eps' = ms \<and>
      mailbox_limit p eps' = mailbox_limit p eps"
    by (cases "eps p") (auto simp: fetch_eq mailbox_def mailbox_limit_def)
qed

section \<open>Properties\<close>

text \<open>C7: A mailbox is a bounded first-in first-out queue. Whatever sequence of
  \<^verbatim>\<open>send_message\<close> and \<^verbatim>\<open>receive_message\<close> calls runs on a process's endpoint, every call
  answers as the abstract queue of the endpoint's capacity does: a send is accepted exactly when
  all its capabilities are live and there is room, messages come out unchanged in the order they
  were accepted, none is lost or duplicated, and the mailbox ends with the abstract queue's
  content.\<close>

theorem mailbox_refines_bounded_fifo:
  "run_ops (chan_step (post cs p) (fetch p)) ops eps = (rs, eps') \<Longrightarrow>
   run_ops (fifo_step (sendable cs) (mailbox_limit p eps)) ops (mailbox p eps) = (rs, mailbox p eps')"
  using mbox.run_refines by blast

theorem mailbox_refines_bounded_fifo_witness:
  "\<exists>eps'. run_ops (chan_step (post initial_caps (ProcessId 0)) (fetch (ProcessId 0)))
       [Put \<lparr>sender = ProcessId 1, msg_data = [1], msg_capabilities = []\<rparr>,
        Put \<lparr>sender = ProcessId 2, msg_data = [2], msg_capabilities = [CapabilityId 5]\<rparr>,
        Take, Take] (ipc_init Map.empty)
     = ([Accepted, Rejected, Got \<lparr>sender = ProcessId 1, msg_data = [1], msg_capabilities = []\<rparr>, Nothing], eps')
   \<and> mailbox (ProcessId 0) eps' = []"
proof -
  let ?ops = "[Put \<lparr>sender = ProcessId 1, msg_data = [1], msg_capabilities = []\<rparr>,
        Put \<lparr>sender = ProcessId 2, msg_data = [2], msg_capabilities = [CapabilityId 5]\<rparr>, Take, Take]"
  obtain rs eps' where r: "run_ops (chan_step (post initial_caps (ProcessId 0)) (fetch (ProcessId 0)))
      ?ops (ipc_init Map.empty) = (rs, eps')"
    by force
  have "run_ops (fifo_step (sendable initial_caps) (mailbox_limit (ProcessId 0) (ipc_init Map.empty)))
      ?ops (mailbox (ProcessId 0) (ipc_init Map.empty))
    = ([Accepted, Rejected, Got \<lparr>sender = ProcessId 1, msg_data = [1], msg_capabilities = []\<rparr>, Nothing], [])"
    by (simp add: ipc_init_def KERNEL_SUPERVISOR_PID_def mailbox_def mailbox_limit_def
        sendable_def validate_capability_def initial_caps_def)
  with mailbox_refines_bounded_fifo [OF r] r show ?thesis by simp
qed

text \<open>\<^verbatim>\<open>send_message\<close> is all or nothing and touches one mailbox only. It fails, with the state
  unchanged, exactly in this order of precedence: some attached capability is not live, the
  recipient has no endpoint, the queue is full; otherwise it appends precisely the message sent.
  In every case all other mailboxes are unchanged and the bound on every mailbox is kept.\<close>

lemma send_message_all_or_nothing:
  assumes "ipc_ok eps" and "send_message cs f t d cl eps = (r, eps')"
  shows "r = (if \<not> list_all (\<lambda>i. validate_capability cs i \<noteq> None) cl then Inl ''Invalid capability''
       else if eps t = None then Inl ''No such endpoint''
       else if length (mailbox t eps) = mailbox_limit t eps then Inl ''Message queue full''
       else Inr ())
    \<and> (if r = Inr () then mailbox t eps' = mailbox t eps @ [\<lparr>sender = f, msg_data = d, msg_capabilities = cl\<rparr>]
       else eps' = eps)
    \<and> (\<forall>q. q \<noteq> t \<longrightarrow> eps' q = eps q) \<and> ipc_ok eps'"
proof -
  have le: "length (mailbox t eps) \<le> mailbox_limit t eps"
    using assms(1) by (auto simp: ipc_ok_def mailbox_def mailbox_limit_def split: option.splits)
  have r: "r = (if \<not> list_all (\<lambda>i. validate_capability cs i \<noteq> None) cl then Inl ''Invalid capability''
       else if eps t = None then Inl ''No such endpoint''
       else if length (mailbox t eps) = mailbox_limit t eps then Inl ''Message queue full''
       else Inr ())"
    using assms(2) le
    by (auto simp: send_message_def not_list_ex_invalid mailbox_def mailbox_limit_def
        split: option.splits if_splits)
  have state: "if r = Inr () then mailbox t eps' = mailbox t eps @ [\<lparr>sender = f, msg_data = d, msg_capabilities = cl\<rparr>]
       else eps' = eps"
    using assms(2) by (auto simp: send_message_def mailbox_def split: option.splits if_splits)
  have "\<forall>q. q \<noteq> t \<longrightarrow> eps' q = eps q" and "ipc_ok eps'"
    using send_message_other [of _ t cs f d cl eps] ipc_ok_send [OF assms(1), of cs f t d cl] assms(2)
    by simp_all
  with r state show ?thesis by (intro conjI)
qed

lemma send_message_all_or_nothing_witness:
  "\<exists>r eps'. ipc_ok (ipc_init Map.empty) \<and>
     send_message initial_caps (ProcessId 1) (ProcessId 0) [7] [] (ipc_init Map.empty) = (r, eps') \<and>
     r = Inr () \<and> mailbox (ProcessId 0) eps' = [\<lparr>sender = ProcessId 1, msg_data = [7], msg_capabilities = []\<rparr>]"
proof -
  have ok: "ipc_ok (ipc_init Map.empty)" by (simp add: ipc_ok_init)
  obtain r eps' where s: "send_message initial_caps (ProcessId 1) (ProcessId 0) [7] [] (ipc_init Map.empty) = (r, eps')"
    by force
  from send_message_all_or_nothing [OF ok s]
  have r: "r = Inr ()"
    by (simp add: ipc_init_def KERNEL_SUPERVISOR_PID_def mailbox_def mailbox_limit_def)
  have "mailbox (ProcessId 0) (ipc_init Map.empty) = []"
    by (simp add: ipc_init_def KERNEL_SUPERVISOR_PID_def mailbox_def)
  with send_message_all_or_nothing [OF ok s] r
  have "mailbox (ProcessId 0) eps' = [\<lparr>sender = ProcessId 1, msg_data = [7], msg_capabilities = []\<rparr>]"
    by simp
  with r ok s show ?thesis by blast
qed

end
