(* ===== verification/Vfs.thy ===== *)
theory Vfs
  imports Rust_Std
begin

text \<open>
  The virtual file system, \<^verbatim>\<open>src/vfs.rs\<close>: a vector of files searched by name. Files mounted
  from the initramfs are read-only; agents create, overwrite and delete the others. \<open>vfs\<close> is
  the content of the mutex \<^verbatim>\<open>VFS\<close>.
\<close>

section \<open>File stores: specification and interface\<close>

text \<open>
  The abstract file store is a partial map from names to files, some of which are locked. Its
  clients write and delete by name and are told whether the operation took effect.
\<close>

datatype ('n, 'd, 'o) file_op = WriteOp 'n 'd 'o | DeleteOp 'n

fun store_step ::
    "('f \<Rightarrow> bool) \<Rightarrow> ('n \<Rightarrow> 'd \<Rightarrow> 'o \<Rightarrow> 'f) \<Rightarrow> ('n, 'd, 'o) file_op \<Rightarrow> ('n \<Rightarrow> 'f option)
      \<Rightarrow> bool \<times> ('n \<Rightarrow> 'f option)" where
  "store_step locked mk (WriteOp n d w) m =
     (if (case m n of None \<Rightarrow> False | Some f \<Rightarrow> locked f) then (False, m) else (True, m(n \<mapsto> mk n d w)))"
| "store_step locked mk (DeleteOp n) m =
     (case m n of None \<Rightarrow> (False, m) | Some f \<Rightarrow> if locked f then (False, m) else (True, m(n := None)))"

fun file_step ::
    "('n \<Rightarrow> 'd \<Rightarrow> 'o \<Rightarrow> 'v \<Rightarrow> bool \<times> 'v) \<Rightarrow> ('n \<Rightarrow> 'v \<Rightarrow> bool \<times> 'v) \<Rightarrow> ('n, 'd, 'o) file_op \<Rightarrow> 'v
      \<Rightarrow> bool \<times> 'v" where
  "file_step wr del (WriteOp n d w) v = wr n d w v"
| "file_step wr del (DeleteOp n) v = del n v"

locale file_store =
  fixes look :: "'v \<Rightarrow> 'n \<Rightarrow> 'f option"
    and wr :: "'n \<Rightarrow> 'd \<Rightarrow> 'o \<Rightarrow> 'v \<Rightarrow> bool \<times> 'v"
    and del :: "'n \<Rightarrow> 'v \<Rightarrow> bool \<times> 'v"
    and locked :: "'f \<Rightarrow> bool"
    and mk :: "'n \<Rightarrow> 'd \<Rightarrow> 'o \<Rightarrow> 'f"
    and store_ok :: "'v \<Rightarrow> bool"
  assumes write_locked: "store_ok v \<Longrightarrow> look v n = Some f \<Longrightarrow> locked f \<Longrightarrow> wr n d w v = (False, v)"
    and write_free: "store_ok v \<Longrightarrow> (\<And>f. look v n = Some f \<Longrightarrow> \<not> locked f) \<Longrightarrow>
      \<exists>v'. wr n d w v = (True, v') \<and> look v' = (look v)(n \<mapsto> mk n d w) \<and> store_ok v'"
    and delete_kept: "store_ok v \<Longrightarrow> (\<And>f. look v n = Some f \<Longrightarrow> locked f) \<Longrightarrow> del n v = (False, v)"
    and delete_gone: "store_ok v \<Longrightarrow> look v n = Some f \<Longrightarrow> \<not> locked f \<Longrightarrow>
      \<exists>v'. del n v = (True, v') \<and> look v' = (look v)(n := None) \<and> store_ok v'"
begin

lemma file_step_refines:
  assumes "store_ok v" and "file_step wr del a v = (r, v')"
  shows "store_step locked mk a (look v) = (r, look v') \<and> store_ok v'"
proof (cases a)
  case (WriteOp n d w)
  show ?thesis
  proof (cases "\<exists>f. look v n = Some f \<and> locked f")
    case True
    then obtain f where f: "look v n = Some f" "locked f" by blast
    with write_locked [OF assms(1) f] WriteOp assms show ?thesis by auto
  next
    case False
    then have "\<And>f. look v n = Some f \<Longrightarrow> \<not> locked f" by blast
    then obtain v1 where "wr n d w v = (True, v1)" "look v1 = (look v)(n \<mapsto> mk n d w)" "store_ok v1"
      using write_free [OF assms(1)] by metis
    with False WriteOp assms show ?thesis by (auto split: option.splits)
  qed
next
  case (DeleteOp n)
  show ?thesis
  proof (cases "\<exists>f. look v n = Some f \<and> \<not> locked f")
    case True
    then obtain f where f: "look v n = Some f" "\<not> locked f" by blast
    with delete_gone [OF assms(1) f] DeleteOp assms show ?thesis by auto
  next
    case False
    then have "\<And>f. look v n = Some f \<Longrightarrow> locked f" by blast
    with delete_kept [OF assms(1), of n] False DeleteOp assms show ?thesis
      by (auto split: option.splits)
  qed
qed

lemma run_file_refines:
  assumes "store_ok v" and "run_ops (file_step wr del) as v = (rs, v')"
  shows "run_ops (store_step locked mk) as (look v) = (rs, look v') \<and> store_ok v'"
  using assms
proof (induction as arbitrary: v rs)
  case Nil
  then show ?case by simp
next
  case (Cons a as)
  obtain r v1 where s: "file_step wr del a v = (r, v1)" by force
  obtain rs1 where t: "run_ops (file_step wr del) as v1 = (rs1, v')" and rs: "rs = r # rs1"
    using Cons.prems(2) s by (auto split: prod.splits)
  from file_step_refines [OF Cons.prems(1) s]
  have st: "store_step locked mk a (look v) = (r, look v1)" and ok: "store_ok v1" by blast+
  from Cons.IH [OF ok t] st show ?case by (auto simp: rs)
qed

lemma locked_step:
  assumes "m n = Some f" and "locked f"
  shows "snd (store_step locked mk a m) n = Some f"
  using assms by (cases a) (auto split: option.splits)

lemma locked_forever:
  assumes "store_ok v" and "look v n = Some f" and "locked f"
  shows "look (snd (run_ops (file_step wr del) as v)) n = Some f"
proof -
  obtain rs v' where r: "run_ops (file_step wr del) as v = (rs, v')" by force
  from run_file_refines [OF assms(1) r]
  have "look v' = snd (run_ops (store_step locked mk) as (look v))" by simp
  moreover have "snd (run_ops (store_step locked mk) as (look v)) n = Some f"
    by (rule run_ops_invariant [where P = "\<lambda>m. m n = Some f"]) (use assms locked_step in auto)
  ultimately show ?thesis by (simp add: r)
qed

end

section \<open>State and operations\<close>

record virtual_file =
  vf_name :: string
  vf_data :: "u8 list"
  vf_owner_pid :: u64
  vf_read_only :: bool

type_synonym vfs = "virtual_file list"

definition register_file :: "string \<Rightarrow> u8 list \<Rightarrow> vfs \<Rightarrow> vfs" where
  "register_file name dat reg =
     reg @ [\<lparr>vf_name = name, vf_data = dat, vf_owner_pid = 0, vf_read_only = True\<rparr>]"

definition open_file :: "vfs \<Rightarrow> string \<Rightarrow> u8 list option" where
  "open_file reg name = map_option vf_data (List.find (\<lambda>f. vf_name f = name) reg)"

definition list_files :: "vfs \<Rightarrow> string list" where
  "list_files reg = map vf_name reg"

definition list_files_prefix :: "vfs \<Rightarrow> string \<Rightarrow> string list" where
  "list_files_prefix reg prefix = map vf_name (filter (\<lambda>f. starts_with (vf_name f) prefix) reg)"

text \<open>\<^verbatim>\<open>iter_mut().find(p)\<close> followed by an assignment through the reference found.\<close>

fun update_first :: "('a \<Rightarrow> bool) \<Rightarrow> ('a \<Rightarrow> 'a) \<Rightarrow> 'a list \<Rightarrow> 'a list" where
  "update_first p g [] = []"
| "update_first p g (x # xs) = (if p x then g x # xs else x # update_first p g xs)"

definition write_file :: "string \<Rightarrow> u8 list \<Rightarrow> u64 \<Rightarrow> vfs \<Rightarrow> bool \<times> vfs" where
  "write_file name dat owner_pid reg =
     (case List.find (\<lambda>f. vf_name f = name) reg of
        Some existing \<Rightarrow>
          if vf_read_only existing then (False, reg)
          else (True, update_first (\<lambda>f. vf_name f = name)
                        (\<lambda>f. f\<lparr>vf_data := dat, vf_owner_pid := owner_pid\<rparr>) reg)
      | None \<Rightarrow>
          (True, reg @ [\<lparr>vf_name = name, vf_data = dat, vf_owner_pid = owner_pid, vf_read_only = False\<rparr>]))"

definition delete_file :: "string \<Rightarrow> vfs \<Rightarrow> bool \<times> vfs" where
  "delete_file name reg =
     (let reg' = filter (\<lambda>f. vf_name f \<noteq> name \<or> vf_read_only f) reg in
      (length reg' < length reg, reg'))"

section \<open>Invariant\<close>

text \<open>
  Two files may share a name only if both are read-only (an archive may hold a name twice);
  so a writable file is the only one of its name.
\<close>

fun vfs_ok :: "vfs \<Rightarrow> bool" where
  "vfs_ok [] = True"
| "vfs_ok (f # fs) \<longleftrightarrow>
     (\<forall>g \<in> set fs. vf_name g = vf_name f \<longrightarrow> vf_read_only f \<and> vf_read_only g) \<and> vfs_ok fs"

definition file_at :: "vfs \<Rightarrow> string \<Rightarrow> virtual_file option" where
  "file_at reg name = List.find (\<lambda>f. vf_name f = name) reg"

definition agent_file :: "string \<Rightarrow> u8 list \<Rightarrow> u64 \<Rightarrow> virtual_file" where
  "agent_file name dat owner_pid =
     \<lparr>vf_name = name, vf_data = dat, vf_owner_pid = owner_pid, vf_read_only = False\<rparr>"

lemma vfs_ok_append:
  "vfs_ok (xs @ ys) \<longleftrightarrow> vfs_ok xs \<and> vfs_ok ys \<and>
     (\<forall>f \<in> set xs. \<forall>g \<in> set ys. vf_name g = vf_name f \<longrightarrow> vf_read_only f \<and> vf_read_only g)"
  by (induction xs) auto

lemma file_at_name: "file_at reg n = Some f \<Longrightarrow> vf_name f = n"
  by (auto simp: file_at_def dest: find_Some_set)

lemma file_at_append:
  "file_at (xs @ ys) n = (case file_at xs n of None \<Rightarrow> file_at ys n | Some f \<Rightarrow> Some f)"
  by (simp add: file_at_def find_append split: option.split)

lemma file_at_Cons: "file_at (f # fs) n = (if vf_name f = n then Some f else file_at fs n)"
  by (simp add: file_at_def)

lemma file_at_None: "file_at reg n = None \<longleftrightarrow> (\<forall>f \<in> set reg. vf_name f \<noteq> n)"
  by (simp add: file_at_def find_None_set)

lemma open_file_file_at: "open_file reg n = map_option vf_data (file_at reg n)"
  by (simp add: open_file_def file_at_def)

lemma set_update_first_subset: "set (update_first p g xs) \<subseteq> set xs \<union> g ` set xs"
  by (induction xs) auto

lemma vfs_ok_update_first:
  assumes "vfs_ok reg" and "\<And>f. vf_name (g f) = vf_name f" and "\<And>f. vf_read_only (g f) = vf_read_only f"
  shows "vfs_ok (update_first p g reg)"
  using assms(1)
proof (induction reg)
  case Nil
  then show ?case by simp
next
  case (Cons x xs)
  have "vf_name y = vf_name x \<longrightarrow> vf_read_only x \<and> vf_read_only y"
    if "y \<in> set (update_first p g xs)" for y
    using that set_update_first_subset [of p g xs] Cons.prems assms(2,3) by auto
  with Cons assms(2,3) show ?case by auto
qed

lemma file_at_update_first:
  assumes "\<And>f. vf_name (g f) = vf_name f"
  shows "file_at (update_first (\<lambda>f. vf_name f = n) g reg) k =
    (if k = n then map_option g (file_at reg n) else file_at reg k)"
  by (induction reg) (auto simp: file_at_Cons assms file_at_def)

lemma vfs_ok_filter: "vfs_ok reg \<Longrightarrow> vfs_ok (filter p reg)"
  by (induction reg) auto

lemma filter_all_read_only:
  assumes "\<forall>f \<in> set reg. vf_name f = n \<longrightarrow> vf_read_only f"
  shows "filter (\<lambda>f. vf_name f \<noteq> n \<or> vf_read_only f) reg = reg"
  using assms by (induction reg) auto

lemma vfs_ok_same_name:
  assumes "vfs_ok reg" and "file_at reg n = Some f" and "g \<in> set reg" and "vf_name g = n"
  shows "g = f \<or> vf_read_only f \<and> vf_read_only g"
  using assms by (induction reg) (auto simp: file_at_Cons split: if_splits dest: file_at_name)

lemma file_at_filter_other:
  "k \<noteq> n \<Longrightarrow> file_at (filter (\<lambda>f. vf_name f \<noteq> n \<or> vf_read_only f) reg) k = file_at reg k"
  by (induction reg) (auto simp: file_at_Cons)

lemma write_file_locked:
  "file_at reg n = Some f \<Longrightarrow> vf_read_only f \<Longrightarrow> write_file n d w reg = (False, reg)"
  by (simp add: write_file_def file_at_def)

lemma write_file_free:
  assumes "vfs_ok reg" and "\<And>f. file_at reg n = Some f \<Longrightarrow> \<not> vf_read_only f"
  shows "\<exists>reg'. write_file n d w reg = (True, reg') \<and>
    file_at reg' = (file_at reg)(n \<mapsto> agent_file n d w) \<and> vfs_ok reg'"
proof (cases "file_at reg n")
  case None
  let ?reg' = "reg @ [agent_file n d w]"
  have "write_file n d w reg = (True, ?reg')"
    using None by (simp add: write_file_def file_at_def agent_file_def)
  moreover have "file_at ?reg' k = ((file_at reg)(n \<mapsto> agent_file n d w)) k" for k
    using None by (auto simp: file_at_append file_at_Cons agent_file_def split: option.split)
      (simp add: file_at_def)
  moreover have "vfs_ok ?reg'"
    using assms(1) None by (auto simp: vfs_ok_append file_at_None agent_file_def)
  ultimately show ?thesis by blast
next
  case (Some f)
  let ?g = "\<lambda>f. f\<lparr>vf_data := d, vf_owner_pid := w\<rparr>"
  let ?reg' = "update_first (\<lambda>f. vf_name f = n) ?g reg"
  have ro: "\<not> vf_read_only f" using assms(2) Some by blast
  then have "write_file n d w reg = (True, ?reg')"
    using Some by (simp add: write_file_def file_at_def)
  moreover have "?g f = agent_file n d w"
    using ro file_at_name [OF Some] by (cases f) (simp add: agent_file_def)
  then have "file_at ?reg' k = ((file_at reg)(n \<mapsto> agent_file n d w)) k" for k
    using Some by (subst file_at_update_first) auto
  moreover have "vfs_ok ?reg'" using assms(1) by (intro vfs_ok_update_first) auto
  ultimately show ?thesis by blast
qed

lemma delete_file_kept:
  assumes "vfs_ok reg" and "\<And>f. file_at reg n = Some f \<Longrightarrow> vf_read_only f"
  shows "delete_file n reg = (False, reg)"
proof -
  have "vf_read_only g" if "g \<in> set reg" "vf_name g = n" for g
  proof -
    from that obtain f where "file_at reg n = Some f"
      using file_at_None [of reg n] by (cases "file_at reg n") auto
    with vfs_ok_same_name [OF assms(1) this that] assms(2) show ?thesis by blast
  qed
  then show ?thesis by (simp add: delete_file_def filter_all_read_only)
qed

lemma delete_file_gone:
  assumes "vfs_ok reg" and "file_at reg n = Some f" and "\<not> vf_read_only f"
  shows "\<exists>reg'. delete_file n reg = (True, reg') \<and> file_at reg' = (file_at reg)(n := None) \<and> vfs_ok reg'"
proof -
  let ?reg' = "filter (\<lambda>f. vf_name f \<noteq> n \<or> vf_read_only f) reg"
  have f: "f \<in> set reg" "vf_name f = n"
    using assms(2) by (auto simp: file_at_def dest: find_Some_set)
  have "length ?reg' < length reg"
    by (rule length_filter_less [OF f(1)]) (use f assms(3) in auto)
  then have "delete_file n reg = (True, ?reg')" by (simp add: delete_file_def Let_def)
  moreover have "file_at ?reg' n = None"
    unfolding file_at_None using vfs_ok_same_name [OF assms(1,2)] assms(3) by auto
  then have "file_at ?reg' k = ((file_at reg)(n := None)) k" for k
    using file_at_filter_other [of k n reg] by (cases "k = n") auto
  ultimately show ?thesis using vfs_ok_filter [OF assms(1)] by blast
qed

interpretation vfs_store: file_store file_at write_file delete_file vf_read_only agent_file vfs_ok
  by unfold_locales
    (blast intro: write_file_locked write_file_free delete_file_kept delete_file_gone)+

lemma vfs_ok_write: "vfs_ok reg \<Longrightarrow> vfs_ok (snd (write_file n d w reg))"
  using vfs_store.write_free [of reg n d w] vfs_store.write_locked [of reg n _ d w]
  by (cases "\<exists>f. file_at reg n = Some f \<and> vf_read_only f") auto

lemma vfs_ok_delete: "vfs_ok reg \<Longrightarrow> vfs_ok (snd (delete_file n reg))"
  by (simp add: delete_file_def Let_def vfs_ok_filter)

lemma vfs_ok_register:
  assumes "vfs_ok reg" and "\<And>f. f \<in> set reg \<Longrightarrow> vf_name f = n \<Longrightarrow> vf_read_only f"
  shows "vfs_ok (register_file n d reg)"
  using assms by (auto simp: register_file_def vfs_ok_append)

lemmas vfs_ok_intros = vfs_ok_write vfs_ok_delete vfs_ok_register

lemma write_file_other: "k \<noteq> n \<Longrightarrow> vfs_ok reg \<Longrightarrow> file_at (snd (write_file n d w reg)) k = file_at reg k"
  using vfs_store.write_free [of reg n d w] vfs_store.write_locked [of reg n _ d w]
  by (cases "\<exists>f. file_at reg n = Some f \<and> vf_read_only f") auto

section \<open>Properties\<close>

text \<open>C12: The vector of files implements a map from names to files. For every sequence of
  \<^verbatim>\<open>write_file\<close> and \<^verbatim>\<open>delete_file\<close> calls on a well-formed file system, each call answers as
  the abstract store does (writing fails exactly on a locked file, deleting succeeds exactly on
  an existing unlocked one), the final lookup function is the abstract map, and the file system
  stays well formed.\<close>

theorem vfs_refines_file_map:
  assumes "vfs_ok reg" and "run_ops (file_step write_file delete_file) ops reg = (rs, reg')"
  shows "run_ops (store_step vf_read_only agent_file) ops (file_at reg) = (rs, file_at reg') \<and> vfs_ok reg'"
  by (rule vfs_store.run_file_refines [OF assms])

theorem vfs_refines_file_map_witness:
  "vfs_ok (register_file ''sys'' [1] []) \<and>
   (\<exists>reg'. run_ops (file_step write_file delete_file)
      [WriteOp ''a'' [5] 1, WriteOp ''sys'' [6] 1, DeleteOp ''sys'', DeleteOp ''a'', DeleteOp ''a'']
      (register_file ''sys'' [1] []) = ([True, False, False, True, False], reg') \<and> file_at reg' ''a'' = None)"
proof -
  let ?ops = "[WriteOp ''a'' [5] 1, WriteOp ''sys'' [6] 1, DeleteOp ''sys'', DeleteOp ''a'', DeleteOp ''a''] ::
    (string, u8 list, u64) file_op list"
  have ok: "vfs_ok (register_file ''sys'' [1] [])" by (simp add: register_file_def)
  obtain rs reg' where r: "run_ops (file_step write_file delete_file) ?ops (register_file ''sys'' [1] []) = (rs, reg')"
    by force
  have m: "run_ops (store_step vf_read_only agent_file) ?ops (file_at (register_file ''sys'' [1] []))
    = ([True, False, False, True, False], (file_at (register_file ''sys'' [1] []))(''a'' := None))"
    by (simp add: register_file_def file_at_Cons file_at_def agent_file_def)
  from vfs_refines_file_map [OF ok r] m have "rs = [True, False, False, True, False]" "file_at reg' ''a'' = None"
    by auto
  with ok r show ?thesis by auto
qed

text \<open>System files are immutable: whatever sequence of writes and deletes runs, a read-only file of a
  well-formed file system is still there under its name with the same contents, owner and flag.\<close>

lemma read_only_files_immutable:
  assumes "vfs_ok reg" and "file_at reg n = Some f" and "vf_read_only f"
  shows "file_at (snd (run_ops (file_step write_file delete_file) ops reg)) n = Some f
    \<and> open_file (snd (run_ops (file_step write_file delete_file) ops reg)) n = Some (vf_data f)"
  using vfs_store.locked_forever [OF assms] by (simp add: open_file_file_at)

text \<open>Writing takes a file over. \<^verbatim>\<open>write_file\<close> by any process on a name that is free or
  writable succeeds; the file then reads back exactly the bytes written and belongs to the
  writer, whoever owned it before, and every other name reads as before. The previous owner is
  never consulted.\<close>

lemma write_file_takes_over:
  assumes "vfs_ok reg" and "case file_at reg n of None \<Rightarrow> True | Some f \<Rightarrow> \<not> vf_read_only f"
  shows "\<exists>reg'. write_file n d pid reg = (True, reg') \<and> open_file reg' n = Some d
    \<and> map_option vf_owner_pid (file_at reg' n) = Some pid
    \<and> (\<forall>k. k \<noteq> n \<longrightarrow> open_file reg' k = open_file reg k) \<and> vfs_ok reg'"
proof -
  obtain reg' where "write_file n d pid reg = (True, reg')"
    and "file_at reg' = (file_at reg)(n \<mapsto> agent_file n d pid)" and "vfs_ok reg'"
    using vfs_store.write_free [OF assms(1), of n d pid] assms(2) by (auto split: option.splits)
  then show ?thesis by (simp add: open_file_file_at agent_file_def)
qed

end
