(* ===== verification/Rtl8139.thy ===== *)
theory Rtl8139
  imports Console Ports
begin

text \<open>
  The network card driver (\<^verbatim>\<open>src/rtl8139.rs\<close>). The card is reached through port I/O (the
  parameter \<open>P\<close>) and through memory it shares with the driver: it fills the receive buffer by DMA,
  so the bytes the driver reads there are a function of the hardware state, the parameter \<open>ring\<close>.
  The transmit buffers are written by the driver only. Addresses are what the allocator returned. The vector
  \<^verbatim>\<open>rx_poll\<close> allocates for a received packet (at most 65531 bytes) is not modelled as failing.
\<close>

section \<open>State\<close>

definition REG_MAC05 :: u16 where "REG_MAC05 = 0x00"
definition REG_TSD0 :: u16 where "REG_TSD0 = 0x10"
definition REG_TSAD0 :: u16 where "REG_TSAD0 = 0x20"
definition REG_RBSTART :: u16 where "REG_RBSTART = 0x30"
definition REG_CMD :: u16 where "REG_CMD = 0x37"
definition REG_RCR :: u16 where "REG_RCR = 0x44"
definition REG_CONFIG1 :: u16 where "REG_CONFIG1 = 0x52"
definition RX_BUFFER_SIZE :: usize where "RX_BUFFER_SIZE = 8192 + 16 + 1500"
definition TX_BUFFER_SIZE :: usize where "TX_BUFFER_SIZE = 2048"

lemmas reg_defs = REG_MAC05_def REG_TSD0_def REG_TSAD0_def REG_RBSTART_def REG_CMD_def REG_RCR_def
  REG_CONFIG1_def

record dma_buffer =
  buf_ptr :: u64
  buf_bytes :: "u8 list"

record rtl8139 =
  io_base :: u16
  mac :: "u8 list"
  phys_mem_offset :: u64
  rx_buffer :: u64  \<comment> \<open>its address; its contents are the card's\<close>
  tx_buffers :: "dma_buffer list"
  tx_index :: usize
  rx_offset :: usize

section \<open>Operations\<close>

definition virt_to_phys :: "rtl8139 \<Rightarrow> u64 \<Rightarrow> u32 outcome" where
  "virt_to_phys dev virt = map_outcome ucast (word_sub virt (phys_mem_offset dev))"

fun read_mac_bytes :: "'h ports \<Rightarrow> u16 \<Rightarrow> u16 list \<Rightarrow> 'h \<Rightarrow> (u8 list \<times> 'h) outcome" where
  "read_mac_bytes P base [] hw = Done ([], hw)"
| "read_mac_bytes P base (i # is) hw =
     obind (word_add base REG_MAC05) (\<lambda>port.
     obind (word_add port i) (\<lambda>port.
     let (b, hw) = inb P port hw in
     map_outcome (\<lambda>(bs, hw). (b # bs, hw)) (read_mac_bytes P base is hw)))"

definition fmt_mac :: "u8 list \<Rightarrow> string" where
  "fmt_mac bs = join '':'' (map fmt_02X bs)"

definition read_mac :: "'h ports \<Rightarrow> rtl8139 \<Rightarrow> 'h \<Rightarrow> console \<Rightarrow> (rtl8139 \<times> 'h \<times> console) outcome" where
  "read_mac P dev hw con =
     map_outcome (\<lambda>(bs, hw). (dev\<lparr>mac := bs\<rparr>, hw, serial_println (''[RTL8139] MAC Address: '' @ fmt_mac bs) con))
       (read_mac_bytes P (io_base dev) [0, 1, 2, 3, 4, 5] hw)"

text \<open>The buffers and their (uninitialised) contents come from the allocator.\<close>

definition rtl8139_new ::
    "'h ports \<Rightarrow> u64 \<Rightarrow> dma_buffer list \<Rightarrow> u16 \<Rightarrow> u64 \<Rightarrow> 'h \<Rightarrow> console \<Rightarrow> (rtl8139 \<times> 'h \<times> console) outcome" where
  "rtl8139_new P rx_ptr txs base offset hw con =
     read_mac P \<lparr>io_base = base, mac = replicate 6 0, phys_mem_offset = offset, rx_buffer = rx_ptr,
                 tx_buffers = txs, tx_index = 0, rx_offset = 0\<rparr> hw con"

text \<open>\<^verbatim>\<open>while (Port::<u8>::new(self.io_base + REG_CMD).read() & 0x10) != 0 {}\<close>\<close>

fun await_reset :: "'h ports \<Rightarrow> u16 \<Rightarrow> nat \<Rightarrow> 'h \<Rightarrow> 'h outcome" where
  "await_reset P base 0 hw = Panic Hang"
| "await_reset P base (Suc fuel) hw =
     obind (word_add base REG_CMD) (\<lambda>port.
     let (v, hw) = inb P port hw in
     if v AND 0x10 \<noteq> 0 then await_reset P base fuel hw else Done hw)"

definition out8 :: "'h ports \<Rightarrow> rtl8139 \<Rightarrow> u16 \<Rightarrow> u8 \<Rightarrow> 'h \<Rightarrow> 'h outcome" where
  "out8 P dev reg v hw = map_outcome (\<lambda>port. outb P port v hw) (word_add (io_base dev) reg)"

definition out32 :: "'h ports \<Rightarrow> rtl8139 \<Rightarrow> u16 \<Rightarrow> u32 \<Rightarrow> 'h \<Rightarrow> 'h outcome" where
  "out32 P dev reg v hw = map_outcome (\<lambda>port. outl P port v hw) (word_add (io_base dev) reg)"

definition rtl8139_init :: "'h ports \<Rightarrow> nat \<Rightarrow> rtl8139 \<Rightarrow> 'h \<Rightarrow> console \<Rightarrow> ('h \<times> console) outcome" where
  "rtl8139_init P fuel dev hw con =
     obind (out8 P dev REG_CONFIG1 0x00 hw) (\<lambda>hw.
     obind (out8 P dev REG_CMD 0x10 hw) (\<lambda>hw.
     obind (await_reset P (io_base dev) fuel hw) (\<lambda>hw.
     obind (virt_to_phys dev (rx_buffer dev)) (\<lambda>rx_phys.
     obind (out32 P dev REG_RBSTART rx_phys hw) (\<lambda>hw.
     obind (out32 P dev REG_RCR (0x0f OR push_bit 7 1) hw) (\<lambda>hw.
     obind (out8 P dev REG_CMD 0x0C hw) (\<lambda>hw.
     Done (hw, serial_println (''[RTL8139] Initialized. RX buffer physically mapped at '' @ fmt_hashX (unat rx_phys)) con))))))))"

definition tx_raw :: "'h ports \<Rightarrow> u8 list \<Rightarrow> rtl8139 \<Rightarrow> 'h \<Rightarrow> (rtl8139 \<times> 'h) outcome" where
  "tx_raw P payload dev hw =
     obind (index (tx_buffers dev) (tx_index dev)) (\<lambda>tx_buf.
     obind (virt_to_phys dev (buf_ptr tx_buf)) (\<lambda>phys.
     obind (slice_range (buf_bytes tx_buf) 0 (length payload)) (\<lambda>_.
     let tx_buf = tx_buf\<lparr>buf_bytes := payload @ drop (length payload) (buf_bytes tx_buf)\<rparr> in
     obind (word_mul (of_nat (tx_index dev)) 4) (\<lambda>slot.
     obind (word_add (io_base dev) REG_TSAD0) (\<lambda>p.
     obind (word_add p slot) (\<lambda>p.
     let hw = outl P p phys hw in
     obind (word_add (io_base dev) REG_TSD0) (\<lambda>p.
     obind (word_add p slot) (\<lambda>p.
     let hw = outl P p (of_nat (length payload)) hw in
     obind (usize_add (tx_index dev) 1) (\<lambda>n.
     Done (dev\<lparr>tx_buffers := (tx_buffers dev)[tx_index dev := tx_buf], tx_index := n mod 4\<rparr>, hw))))))))))"

text \<open>\<^verbatim>\<open>for i in 0..p_len { packet.push(self.rx_buffer[(packet_offset + i) % 8192]) }\<close>\<close>

fun copy_packet :: "u8 list \<Rightarrow> usize \<Rightarrow> usize list \<Rightarrow> u8 list outcome" where
  "copy_packet buf packet_offset [] = Done []"
| "copy_packet buf packet_offset (i # is) =
     obind (usize_add packet_offset i) (\<lambda>n.
     obind (index buf (n mod 8192)) (\<lambda>b.
     map_outcome (\<lambda>bs. b # bs) (copy_packet buf packet_offset is)))"

definition align4 :: "usize \<Rightarrow> usize" where
  "align4 n = unat ((of_nat n :: u64) AND NOT 3)"

definition rx_poll ::
    "'h ports \<Rightarrow> ('h \<Rightarrow> u8 list) \<Rightarrow> rtl8139 \<Rightarrow> 'h \<Rightarrow> (u8 list option \<times> rtl8139 \<times> 'h) outcome" where
  "rx_poll P ring dev hw =
     obind (word_add (io_base dev) REG_CMD) (\<lambda>port.
     let (cmd, hw) = inb P port hw in
     if cmd AND 1 \<noteq> 0 then Done (None, dev, hw)
     else
       obind (usize_add (rx_offset dev) 2) (\<lambda>i.
       obind (index (ring hw) i) (\<lambda>lo.
       obind (usize_add (rx_offset dev) 3) (\<lambda>i.
       obind (index (ring hw) i) (\<lambda>hi.
       let len = unat (u16_from_le_bytes lo hi) in
       obind (usize_add (rx_offset dev) 4) (\<lambda>packet_offset.
       obind (copy_packet (ring hw) packet_offset [0..<len - 4]) (\<lambda>packet.
       obind (usize_add (rx_offset dev) len) (\<lambda>n.
       obind (usize_add n 4) (\<lambda>n.
       obind (usize_add n 3) (\<lambda>n.
       let n = align4 n in
       Done (Some packet, dev\<lparr>rx_offset := if n \<ge> 8192 then n - 8192 else n\<rparr>, hw)))))))))))"

section \<open>Addresses and ports\<close>

lemma virt_to_phys_Done: "phys_mem_offset dev \<le> p \<Longrightarrow> virt_to_phys dev p = Done (ucast (p - phys_mem_offset dev))"
  by (simp add: virt_to_phys_def word_sub_def)

lemma virt_to_phys_panics_iff [simp]: "virt_to_phys dev p = Panic ArithOverflow \<longleftrightarrow> p < phys_mem_offset dev"
  by (auto simp: virt_to_phys_def word_sub_def)

lemma port_Done:
  fixes base reg :: u16
  assumes "unat base + unat reg < 65536"
  shows "word_add base reg = Done (base + reg)" "unat (base + reg) = unat base + unat reg"
  using assms unat_add_no_overflow [of base reg] by (simp_all add: word_add_def)

section \<open>Well-formed devices\<close>

text \<open>
  The card's 256 registers fit into the port space, there are four transmit buffers, and every
  address lies in the window at which the bootloader maps physical memory.
\<close>

definition device_ok :: "rtl8139 \<Rightarrow> bool" where
  "device_ok dev \<longleftrightarrow>
     unat (io_base dev) \<le> 0xFF00 \<and> length (tx_buffers dev) = 4 \<and> tx_index dev < 4 \<and>
     list_all (\<lambda>b. phys_mem_offset dev \<le> buf_ptr b \<and> length (buf_bytes b) = TX_BUFFER_SIZE) (tx_buffers dev) \<and>
     phys_mem_offset dev \<le> rx_buffer dev \<and> rx_offset dev < 8192 \<and> rx_offset dev mod 4 = 0"

lemma device_okD:
  assumes "device_ok dev"
  shows "unat (io_base dev) \<le> 0xFF00" "length (tx_buffers dev) = 4" "tx_index dev < 4"
    "phys_mem_offset dev \<le> rx_buffer dev" "rx_offset dev < 8192" "rx_offset dev mod 4 = 0"
    and "i < 4 \<Longrightarrow> phys_mem_offset dev \<le> buf_ptr (tx_buffers dev ! i)"
    and "i < 4 \<Longrightarrow> length (buf_bytes (tx_buffers dev ! i)) = 2048"
  using assms by (auto simp: device_ok_def list_all_length TX_BUFFER_SIZE_def)

lemma rx_offset_le: "device_ok dev \<Longrightarrow> rx_offset dev \<le> 8188"
  using device_okD(5,6) [of dev] by presburger

section \<open>Transmission\<close>

definition load_buffer :: "u8 list \<Rightarrow> dma_buffer \<Rightarrow> dma_buffer" where
  "load_buffer payload b = b\<lparr>buf_bytes := payload @ drop (length payload) (buf_bytes b)\<rparr>"

lemma word_mul_slot:
  assumes "i < 4"
  shows "word_mul (of_nat i :: u16) 4 = Done (of_nat (i * 4))" "unat (of_nat (i * 4) :: u16) = i * 4"
proof -
  have "unat (of_nat i :: u16) = i" using assms by (subst unat_of_nat) simp
  then show "word_mul (of_nat i :: u16) 4 = Done (of_nat (i * 4))"
    using assms by (simp add: word_mul_def)
  show "unat (of_nat (i * 4) :: u16) = i * 4" using assms by (subst unat_of_nat) simp
qed

lemma tx_port_Done:
  assumes "unat (base :: u16) \<le> 0xFF00" and "i < 4" and "unat reg \<le> 0x20"
  shows "word_add base reg = Done (base + reg)"
    "word_add (base + reg) (of_nat (i * 4)) = Done (base + reg + of_nat (i * 4))"
proof -
  show "word_add base reg = Done (base + reg)" using assms by (intro port_Done) simp
  have "unat (base + reg) = unat base + unat reg" using assms by (intro port_Done) simp
  then show "word_add (base + reg) (of_nat (i * 4)) = Done (base + reg + of_nat (i * 4))"
    using assms word_mul_slot(2) [OF assms(2)] by (intro port_Done) simp
qed

lemma tx_raw_eq:
  assumes "device_ok dev" and "length payload \<le> 2048"
  shows "tx_raw P payload dev hw = Done
    (dev\<lparr>tx_buffers := (tx_buffers dev)[tx_index dev := load_buffer payload (tx_buffers dev ! tx_index dev)],
         tx_index := (tx_index dev + 1) mod 4\<rparr>,
     outl P (io_base dev + REG_TSD0 + of_nat (tx_index dev * 4)) (of_nat (length payload))
       (outl P (io_base dev + REG_TSAD0 + of_nat (tx_index dev * 4))
         (ucast (buf_ptr (tx_buffers dev ! tx_index dev) - phys_mem_offset dev)) hw))"
proof -
  note ok = device_okD [OF assms(1)]
  have "unat REG_TSAD0 \<le> 0x20" "unat REG_TSD0 \<le> 0x20" by (simp_all add: reg_defs)
  note ports = tx_port_Done [OF ok(1,3) this(1)] tx_port_Done [OF ok(1,3) this(2)]
  have "usize_add (tx_index dev) 1 = Done (tx_index dev + 1)"
    using ok(3) by (simp add: usize_bound_def)
  then show ?thesis
    using ok(2,3) ok(7,8) [OF ok(3)] assms(2) ports word_mul_slot(1) [OF ok(3)]
    by (simp add: tx_raw_def virt_to_phys_Done load_buffer_def Let_def)
qed

lemma tx_raw_too_long:
  assumes "device_ok dev" and "2048 < length payload"
  shows "tx_raw P payload dev hw = Panic SliceOutOfRange"
  using device_okD(2,3) [OF assms(1)] device_okD(7,8) [OF assms(1), of "tx_index dev"] assms(2)
  by (simp add: tx_raw_def virt_to_phys_Done slice_range_def)

lemma device_ok_tx_raw:
  assumes "device_ok dev" and "tx_raw P payload dev hw = Done (dev', hw')"
  shows "device_ok dev'"
proof (cases "length payload \<le> 2048")
  case True
  note ok = device_okD [OF assms(1)]
  have b: "phys_mem_offset dev \<le> buf_ptr (load_buffer payload (tx_buffers dev ! tx_index dev))"
    "length (buf_bytes (load_buffer payload (tx_buffers dev ! tx_index dev))) = TX_BUFFER_SIZE"
    using ok(7,8) [OF ok(3)] True by (simp_all add: load_buffer_def TX_BUFFER_SIZE_def)
  show ?thesis
    using assms b ok(2,3) unfolding tx_raw_eq [OF assms(1) True]
    by (auto simp: device_ok_def list_all_length nth_list_update)
next
  case False
  then show ?thesis using assms tx_raw_too_long [OF assms(1), of payload P hw] by simp
qed

section \<open>Reception\<close>

lemma align4_eq: "n < 2 ^ 64 \<Longrightarrow> align4 n = n div 4 * 4"
proof -
  assume n: "n < 2 ^ 64"
  have "(3 :: u64) = mask 2" by (simp add: mask_eq_exp_minus_1)
  moreover have "unat (of_nat n :: u64) = n" using n by (subst unat_of_nat) simp
  ultimately show ?thesis using unat_and_not_mask [of "of_nat n :: u64" 2] by (simp add: align4_def)
qed

lemma copy_packet_eq:
  assumes "8192 \<le> length buf" and "\<And>i. i \<in> set is \<Longrightarrow> off + i < usize_bound"
  shows "copy_packet buf off is = Done (map (\<lambda>i. buf ! ((off + i) mod 8192)) is)"
  using assms(2)
proof (induction "is")
  case (Cons i "is")
  have "(off + i) mod 8192 < length buf" using assms(1) by (rule less_le_trans [rotated]) simp
  with Cons show ?case by simp
qed simp

definition next_offset :: "usize \<Rightarrow> usize \<Rightarrow> usize" where
  "next_offset off len = (let n = (off + len + 7) div 4 * 4 in if n \<ge> 8192 then n - 8192 else n)"

definition frame_length :: "u8 list \<Rightarrow> usize \<Rightarrow> usize" where
  "frame_length buf off = unat (buf ! (off + 2)) + unat (buf ! (off + 3)) * 256"

lemma frame_length_less: "frame_length buf off < 65536"
  using unat_u8_less [of "buf ! (off + 2)"] unat_u8_less [of "buf ! (off + 3)"]
  unfolding frame_length_def by linarith

text \<open>What a poll does, as long as the frame header lies inside the buffer.\<close>

lemma rx_poll_eq:
  assumes "unat (io_base dev) \<le> 0xFF00" and "inb P (io_base dev + REG_CMD) hw = (cmd, hw')"
    and "length (ring hw') = RX_BUFFER_SIZE" and "rx_offset dev + 3 < RX_BUFFER_SIZE"
  shows "rx_poll P ring dev hw =
    (if cmd AND 1 \<noteq> 0 then Done (None, dev, hw')
     else let len = frame_length (ring hw') (rx_offset dev) in
       Done (Some (map (\<lambda>i. ring hw' ! ((rx_offset dev + 4 + i) mod 8192)) [0..<len - 4]),
             dev\<lparr>rx_offset := next_offset (rx_offset dev) len\<rparr>, hw'))"
proof -
  let ?len = "frame_length (ring hw') (rx_offset dev)"
  have port: "word_add (io_base dev) REG_CMD = Done (io_base dev + REG_CMD)"
    using assms(1) by (intro port_Done) (simp add: reg_defs)
  have small: "rx_offset dev + ?len + 7 < 2 ^ 64" and off: "rx_offset dev < 9708"
    using assms(4) frame_length_less [of "ring hw'" "rx_offset dev"] by (simp_all add: RX_BUFFER_SIZE_def)
  have adds: "usize_add (rx_offset dev) 2 = Done (rx_offset dev + 2)"
    "usize_add (rx_offset dev) 3 = Done (rx_offset dev + 3)"
    "usize_add (rx_offset dev) 4 = Done (rx_offset dev + 4)"
    "usize_add (rx_offset dev) ?len = Done (rx_offset dev + ?len)"
    "usize_add (rx_offset dev + ?len) 4 = Done (rx_offset dev + ?len + 4)"
    "usize_add (rx_offset dev + ?len + 4) 3 = Done (rx_offset dev + ?len + 4 + 3)"
    using small off by (simp_all add: usize_bound_def)
  have idx: "index (ring hw') (rx_offset dev + 2) = Done (ring hw' ! (rx_offset dev + 2))"
    "index (ring hw') (rx_offset dev + 3) = Done (ring hw' ! (rx_offset dev + 3))"
    using assms(3,4) by simp_all
  have len: "unat (u16_from_le_bytes (ring hw' ! (rx_offset dev + 2)) (ring hw' ! (rx_offset dev + 3))) = ?len"
    by (simp only: unat_u16_from_le_bytes frame_length_def)
  have copy: "copy_packet (ring hw') (rx_offset dev + 4) [0..<?len - 4]
      = Done (map (\<lambda>i. ring hw' ! ((rx_offset dev + 4 + i) mod 8192)) [0..<?len - 4])"
    using assms(3) small by (intro copy_packet_eq) (auto simp: RX_BUFFER_SIZE_def usize_bound_def)
  have "rx_offset dev + ?len + 4 + 3 = rx_offset dev + ?len + 7" by simp
  then have al: "align4 (rx_offset dev + ?len + 4 + 3) = (rx_offset dev + ?len + 7) div 4 * 4"
    using align4_eq [OF small] by (simp only:)
  show ?thesis
    unfolding rx_poll_def port obind.simps Let_def assms(2) prod.case adds idx len copy al next_offset_def
    by (rule refl)
qed

lemma next_offset_ok:
  assumes "off < 8192" and "len \<le> 8185"
  shows "next_offset off len < 8192" "next_offset off len mod 4 = 0"
    "next_offset off len = ((off + len + 7) div 4 * 4) mod 8192"
proof -
  define n where "n = (off + len + 7) div 4 * 4"
  have nxt: "next_offset off len = (if 8192 \<le> n then n - 8192 else n)"
    by (simp only: next_offset_def n_def Let_def)
  have n: "n < 16384" using assms unfolding n_def by linarith
  have dvd: "4 dvd n" "4 dvd (8192 :: nat)" by (simp_all add: n_def)
  show "next_offset off len < 8192" using n unfolding nxt by (cases "8192 \<le> n") auto
  have "4 dvd next_offset off len" using dvd by (simp add: nxt dvd_diff_nat)
  then show "next_offset off len mod 4 = 0" by simp
  have "next_offset off len = n mod 8192" using n by (simp add: nxt le_mod_geq)
  then show "next_offset off len = ((off + len + 7) div 4 * 4) mod 8192" by (simp only: n_def)
qed

section \<open>A concrete card\<close>

text \<open>A card with a static ring whose first frame has the given length field; used by the witnesses.\<close>

definition sample_ports :: "unit ports" where
  "sample_ports = \<lparr>inb = (\<lambda>_ hw. (0, hw)), outb = (\<lambda>_ _ hw. hw), inl = (\<lambda>_ hw. (0, hw)), outl = (\<lambda>_ _ hw. hw)\<rparr>"

definition sample_device :: rtl8139 where
  "sample_device = \<lparr>io_base = 0xC000, mac = replicate 6 0, phys_mem_offset = 0, rx_buffer = 0x1000,
     tx_buffers = replicate 4 \<lparr>buf_ptr = 0x8000, buf_bytes = replicate 2048 0\<rparr>, tx_index = 0, rx_offset = 0\<rparr>"

definition sample_ring :: "u8 \<Rightarrow> u8 \<Rightarrow> unit \<Rightarrow> u8 list" where
  "sample_ring lo hi hw = [1, 0, lo, hi] @ replicate 9704 0x42"

lemma sample_device_ok: "device_ok sample_device"
  by (simp add: device_ok_def sample_device_def list_all_iff TX_BUFFER_SIZE_def)

lemma sample_ring_facts:
  "length (sample_ring lo hi hw) = RX_BUFFER_SIZE"
  "frame_length (sample_ring lo hi hw) (rx_offset sample_device) = unat lo + unat hi * 256"
  by (simp_all add: sample_ring_def RX_BUFFER_SIZE_def frame_length_def sample_device_def)

section \<open>Properties\<close>

definition tx_all :: "'h ports \<Rightarrow> u8 list list \<Rightarrow> rtl8139 \<times> 'h \<Rightarrow> (rtl8139 \<times> 'h) outcome" where
  "tx_all P = for_each (\<lambda>payload (dev, hw). tx_raw P payload dev hw)"

lemma tx_all_snoc:
  "tx_all P (fs @ [f]) st = obind (tx_all P fs st) (\<lambda>(dev, hw). tx_raw P f dev hw)"
proof -
  have "tx_all P [f] st' = (case st' of (dev, hw) \<Rightarrow> tx_raw P f dev hw)" for st'
  proof (cases st')
    case (Pair dev hw)
    then show ?thesis by (cases "tx_raw P f dev hw") (simp_all add: tx_all_def)
  qed
  then have "tx_all P [f] = (\<lambda>(dev, hw). tx_raw P f dev hw)" by auto
  then show ?thesis by (simp only: tx_all_def for_each_append)
qed

lemma ring_slot_distinct:
  fixes a j :: nat
  assumes "0 < j" and "j < 4" and "j \<le> n"
  shows "(a + n - j) mod 4 \<noteq> (a + n) mod 4"
proof
  assume "(a + n - j) mod 4 = (a + n) mod 4"
  then have "4 dvd (a + n) - (a + n - j)" using mod_eq_dvd_iff_nat [of "a + n - j" "a + n" 4] by simp
  moreover have "(a + n) - (a + n - j) = j" using assms(3) by simp
  ultimately show False using assms(1,2) by (simp add: nat_dvd_not_less)
qed

lemma frames_kept_snoc:
  assumes "j < min 4 (Suc (length fs))"
    and "\<And>i. i < min 4 (length fs) \<Longrightarrow> take (length (fs ! (length fs - 1 - i))) (slot (length fs - 1 - i)) = fs ! (length fs - 1 - i)"
    and "take (length f) (slot' (length fs)) = f"
    and "\<And>i. 0 < i \<Longrightarrow> i < 4 \<Longrightarrow> i \<le> length fs \<Longrightarrow> slot' (length fs - i) = slot (length fs - i)"
  shows "take (length ((fs @ [f]) ! (length fs - j))) (slot' (length fs - j)) = (fs @ [f]) ! (length fs - j)"
proof (cases j)
  case 0
  then show ?thesis using assms(3) by simp
next
  case (Suc i)
  then have "length fs - j = length fs - 1 - i" "length fs - j < length fs" "i < min 4 (length fs)"
    using assms(1) by auto
  then show ?thesis using assms(2) [of i] assms(4) [of j] assms(1) Suc by (simp add: nth_append)
qed

lemma tx_all_ring:
  assumes "device_ok dev" and "\<forall>f \<in> set fs. length f \<le> 2048"
  shows "\<exists>dev' hw'. tx_all P fs (dev, hw) = Done (dev', hw') \<and> device_ok dev' \<and>
    tx_index dev' = (tx_index dev + length fs) mod 4 \<and>
    (\<forall>j < min 4 (length fs).
       take (length (fs ! (length fs - 1 - j)))
         (buf_bytes (tx_buffers dev' ! ((tx_index dev + (length fs - 1 - j)) mod 4))) = fs ! (length fs - 1 - j))"
  using assms(2)
proof (induction fs rule: rev_induct)
  case Nil
  show ?case using assms(1) device_okD(3) [OF assms(1)] by (simp add: tx_all_def)
next
  case (snoc f fs)
  then obtain d h where run: "tx_all P fs (dev, hw) = Done (d, h)" and ok: "device_ok d"
    and ti: "tx_index d = (tx_index dev + length fs) mod 4"
    and kept: "\<And>j. j < min 4 (length fs) \<Longrightarrow> take (length (fs ! (length fs - 1 - j)))
       (buf_bytes (tx_buffers d ! ((tx_index dev + (length fs - 1 - j)) mod 4))) = fs ! (length fs - 1 - j)"
    by auto
  have f: "length f \<le> 2048" using snoc.prems by simp
  obtain d' h' where step: "tx_raw P f d h = Done (d', h')"
    and bufs: "tx_buffers d' = (tx_buffers d)[tx_index d := load_buffer f (tx_buffers d ! tx_index d)]"
    and ti': "tx_index d' = (tx_index d + 1) mod 4"
    using tx_raw_eq [OF ok f, of P h] by simp
  have len: "length (tx_buffers d) = 4" "tx_index d < 4" using device_okD(2,3) [OF ok] by simp_all
  have new: "take (length f) (buf_bytes (tx_buffers d' ! ((tx_index dev + length fs) mod 4))) = f"
    using len by (simp add: bufs ti [symmetric] load_buffer_def)
  have old: "tx_buffers d' ! ((tx_index dev + (length fs - j)) mod 4) = tx_buffers d ! ((tx_index dev + (length fs - j)) mod 4)"
    if "0 < j" "j < 4" "j \<le> length fs" for j
    using that ring_slot_distinct [OF that, of "tx_index dev"] by (simp add: bufs ti)
  have "take (length ((fs @ [f]) ! (length fs - j)))
      (buf_bytes (tx_buffers d' ! ((tx_index dev + (length fs - j)) mod 4))) = (fs @ [f]) ! (length fs - j)"
    if "j < min 4 (Suc (length fs))" for j
    using frames_kept_snoc [where slot = "\<lambda>i. buf_bytes (tx_buffers d ! ((tx_index dev + i) mod 4))"
        and slot' = "\<lambda>i. buf_bytes (tx_buffers d' ! ((tx_index dev + i) mod 4))", OF that kept new] old by simp
  moreover have "tx_index d' = (tx_index dev + length (fs @ [f])) mod 4"
    by (simp add: ti' ti mod_Suc_eq)
  ultimately show ?case
    using run step device_ok_tx_raw [OF ok step] by (simp add: tx_all_snoc)
qed

text \<open>C21: The transmit ring. A well-formed device takes any sequence of frames of at most 2048 bytes
  without a panic, keeps its invariant, moves round its four buffers, and the last four frames
  handed over stand complete in their own buffers: a frame is not overwritten before four more
  frames are sent. A longer frame panics the kernel before anything is written to the card.\<close>

theorem tx_ring_keeps_last_frames:
  assumes "device_ok dev" and "\<forall>f \<in> set fs. length f \<le> 2048"
  shows "(\<exists>dev' hw'. tx_all P fs (dev, hw) = Done (dev', hw') \<and> device_ok dev' \<and>
      tx_index dev' = (tx_index dev + length fs) mod 4 \<and>
      (\<forall>j < min 4 (length fs).
         take (length (fs ! (length fs - 1 - j)))
           (buf_bytes (tx_buffers dev' ! ((tx_index dev + (length fs - 1 - j)) mod 4))) = fs ! (length fs - 1 - j))) \<and>
    (\<forall>f. 2048 < length f \<longrightarrow> tx_raw P f dev hw = Panic SliceOutOfRange)"
  using tx_all_ring [OF assms, of P hw] tx_raw_too_long [OF assms(1)] by (intro conjI allI impI) simp_all

theorem tx_ring_keeps_last_frames_witness:
  "\<exists>dev' hw'. tx_all sample_ports [[1, 2], [3], [4], [5], [6, 7]] (sample_device, ()) = Done (dev', hw') \<and>
     tx_index dev' = 1 \<and> take 2 (buf_bytes (tx_buffers dev' ! 0)) = [6, 7] \<and>
     tx_raw sample_ports (replicate 2049 0) sample_device () = Panic SliceOutOfRange"
proof -
  let ?fs = "[[1, 2], [3], [4], [5], [6, 7 :: u8]]"
  have "\<forall>f \<in> set ?fs. length f \<le> 2048" by simp
  note facts = tx_ring_keeps_last_frames [OF sample_device_ok this, of sample_ports "()"]
  from facts obtain dev' hw' where run: "tx_all sample_ports ?fs (sample_device, ()) = Done (dev', hw')"
    and i: "tx_index dev' = (tx_index sample_device + length ?fs) mod 4"
    and b: "\<And>j. j < min 4 (length ?fs) \<Longrightarrow> take (length (?fs ! (length ?fs - 1 - j)))
         (buf_bytes (tx_buffers dev' ! ((tx_index sample_device + (length ?fs - 1 - j)) mod 4))) = ?fs ! (length ?fs - 1 - j)"
    by blast
  have "tx_raw sample_ports (replicate 2049 0) sample_device () = Panic SliceOutOfRange" using facts by simp
  moreover have "tx_index sample_device = 0" by (simp add: sample_device_def)
  ultimately show ?thesis using run i b [of 0] by (simp add: numeral_2_eq_2)
qed

text \<open>C22: The receive ring. On a well-formed device and a frame whose length field is at most 8185,
  a poll returns exactly the bytes of the frame behind its 4-byte header without the 4-byte CRC,
  read modulo the ring size of 8192, advances to the next 4-byte boundary modulo 8192 and keeps the
  device well-formed. When the frame ends before the ring does these are the contiguous bytes; when
  it does not, the code reads the tail from the start of the ring, although \<^verbatim>\<open>init\<close> sets the card's
  WRAP bit, with which the card stores it contiguously past the end.\<close>

theorem rx_poll_returns_frame:
  assumes "device_ok dev" and "inb P (io_base dev + REG_CMD) hw = (cmd, hw')" and "cmd AND 1 = 0"
    and "length (ring hw') = RX_BUFFER_SIZE" and "frame_length (ring hw') (rx_offset dev) = len" and "len \<le> 8185"
  shows "\<exists>dev' packet. rx_poll P ring dev hw = Done (Some packet, dev', hw') \<and> device_ok dev' \<and>
    rx_offset dev' = ((rx_offset dev + len + 7) div 4 * 4) mod 8192 \<and>
    packet = map (\<lambda>i. ring hw' ! ((rx_offset dev + 4 + i) mod 8192)) [0..<len - 4] \<and>
    (rx_offset dev + len \<le> 8192 \<longrightarrow> packet = take (len - 4) (drop (rx_offset dev + 4) (ring hw')))"
proof -
  note ok = device_okD [OF assms(1)]
  note off = next_offset_ok [OF ok(5) assms(6)]
  let ?p = "map (\<lambda>i. ring hw' ! ((rx_offset dev + 4 + i) mod 8192)) [0..<len - 4]"
  let ?d = "dev\<lparr>rx_offset := next_offset (rx_offset dev) len\<rparr>"
  have "rx_offset dev + 3 < RX_BUFFER_SIZE" using ok(5) by (simp add: RX_BUFFER_SIZE_def)
  then have poll: "rx_poll P ring dev hw = Done (Some ?p, ?d, hw')"
    using rx_poll_eq [OF ok(1) assms(2), of ring] assms(3-5) by (simp add: Let_def)
  have "device_ok ?d" using assms(1) off by (simp add: device_ok_def)
  moreover have "?p = take (len - 4) (drop (rx_offset dev + 4) (ring hw'))" if "rx_offset dev + len \<le> 8192"
    using that assms(4) by (intro nth_equalityI) (auto simp: RX_BUFFER_SIZE_def)
  ultimately show ?thesis using poll off(3) by auto
qed

theorem rx_poll_returns_frame_witness:
  "\<exists>dev'. rx_poll sample_ports (sample_ring 64 0) sample_device () = Done (Some (replicate 60 0x42), dev', ()) \<and>
     rx_offset dev' = 68"
proof -
  have "rx_offset sample_device = 0" by (simp add: sample_device_def)
  moreover have "take 60 (drop 4 (sample_ring 64 0 ())) = replicate 60 0x42"
    by (simp add: sample_ring_def)
  ultimately show ?thesis
    using rx_poll_returns_frame [OF sample_device_ok, of sample_ports "()" 0 "()" "sample_ring 64 0" 64]
      sample_ring_facts [of 64 0 "()"]
    by (auto simp: sample_ports_def)
qed

text \<open>C39: A length field the ring cannot hold derails the driver. The offset is reduced by 8192 at most
  once, so after a frame header with a length of 17896 or more (the card shows \<^verbatim>\<open>0xFFF0\<close> while it is
  still copying a frame) it points behind the buffer, and the next poll that finds the ring
  non-empty panics the kernel.\<close>

theorem rx_poll_oversized_length_panics:
  assumes "device_ok dev" and "inb P (io_base dev + REG_CMD) hw = (cmd, hw')" and "cmd AND 1 = 0"
    and "length (ring hw') = RX_BUFFER_SIZE" and "17896 \<le> frame_length (ring hw') (rx_offset dev)"
    and "inb P (io_base dev + REG_CMD) hw1 = (cmd1, hw2)" and "cmd1 AND 1 = 0" and "length (ring hw2) = RX_BUFFER_SIZE"
  shows "\<exists>packet dev'. rx_poll P ring dev hw = Done (Some packet, dev', hw') \<and>
    rx_poll P ring dev' hw1 = Panic IndexOutOfBounds"
proof -
  note ok = device_okD [OF assms(1)]
  let ?len = "frame_length (ring hw') (rx_offset dev)"
  let ?d = "dev\<lparr>rx_offset := next_offset (rx_offset dev) ?len\<rparr>"
  have len: "?len < 65536" by (rule frame_length_less)
  define n where "n = (rx_offset dev + ?len + 7) div 4 * 4"
  have nxt: "next_offset (rx_offset dev) ?len = (if 8192 \<le> n then n - 8192 else n)"
    by (simp only: next_offset_def n_def Let_def)
  have "17900 \<le> n" "n < 80000" using assms(5) ok(5) len unfolding n_def by linarith+
  then have far: "9708 \<le> next_offset (rx_offset dev) ?len" "next_offset (rx_offset dev) ?len < 80000"
    by (simp_all add: nxt)
  have "rx_offset dev + 3 < RX_BUFFER_SIZE" using ok(5) by (simp add: RX_BUFFER_SIZE_def)
  then have first: "\<exists>packet. rx_poll P ring dev hw = Done (Some packet, ?d, hw')"
    using rx_poll_eq [OF ok(1) assms(2), of ring] assms(3,4) by (simp add: Let_def)
  have port: "word_add (io_base dev) REG_CMD = Done (io_base dev + REG_CMD)"
    using ok(1) by (intro port_Done) (simp add: reg_defs)
  have "usize_add (rx_offset ?d) 2 = Done (rx_offset ?d + 2)" using far(2) by (simp add: usize_bound_def)
  moreover have "index (ring hw2) (rx_offset ?d + 2) = Panic IndexOutOfBounds"
    using far(1) assms(8) by (simp add: index_def RX_BUFFER_SIZE_def)
  ultimately have "rx_poll P ring ?d hw1 = Panic IndexOutOfBounds"
    using port assms(6,7) by (simp add: rx_poll_def Let_def)
  with first show ?thesis by blast
qed

theorem rx_poll_oversized_length_panics_witness:
  "\<exists>packet dev'. rx_poll sample_ports (sample_ring 0xF0 0xFF) sample_device () = Done (Some packet, dev', ()) \<and>
     rx_poll sample_ports (sample_ring 0xF0 0xFF) dev' () = Panic IndexOutOfBounds"
proof (rule rx_poll_oversized_length_panics [OF sample_device_ok])
  show "inb sample_ports (io_base sample_device + REG_CMD) () = (0, ())"
    "inb sample_ports (io_base sample_device + REG_CMD) () = (0, ())"
    by (simp_all add: sample_ports_def)
qed (simp_all add: sample_ring_facts)

end
