(* ===== verification/Net.thy ===== *)
theory Net
  imports Rtl8139
begin

text \<open>
  The glue between the card and the IP stack (\<^verbatim>\<open>src/net.rs\<close>): the two tokens, the \<^verbatim>\<open>Device\<close>
  trait of the card, the network stack behind the lock \<^verbatim>\<open>NETWORK\<close> and its configuration.

  smoltcp is a library. It is a record of the operations the kernel calls, over unspecified types
  of interfaces, socket sets and sockets. \<^verbatim>\<open>Interface::poll\<close> calls the device back; it is
  given as the next call it makes after the answers it has had so far, and \<open>run_poll\<close> plays it
  against the card. A poll that does not finish within the given number of calls is a hang; nothing is
  assumed about how many calls a poll makes, and the card may keep it going for ever.
\<close>

section \<open>The IP stack as a parameter\<close>

datatype poll_answer = Received "u8 list option" | Transmitted

datatype ('i, 's) poll_call =
    PollReturn 'i 's
  | PollReceive
  | PollTransmit usize "usize \<Rightarrow> u8"  \<comment> \<open>length of the frame, the bytes the closure stores\<close>

record device_capabilities =
  max_transmission_unit :: usize
  max_burst_size :: "usize option"

record ('i, 's, 'k) smoltcp =
  iface_new :: "u8 list \<Rightarrow> u64 \<Rightarrow> device_capabilities \<Rightarrow> int \<Rightarrow> 'i"
  push_ip_addr :: "u8 list \<Rightarrow> nat \<Rightarrow> 'i \<Rightarrow> 'i option"
  add_default_route :: "u8 list \<Rightarrow> 'i \<Rightarrow> 'i option"
  socket_set_new :: 's
  poll_next :: "int \<Rightarrow> 'i \<Rightarrow> 's \<Rightarrow> poll_answer list \<Rightarrow> ('i, 's) poll_call"
  sockets_add :: "'k \<Rightarrow> 's \<Rightarrow> nat \<times> 's"
  sockets_remove :: "nat \<Rightarrow> 's \<Rightarrow> 's"
  tcp_connect :: "'i \<Rightarrow> u8 list \<times> u16 \<Rightarrow> u16 \<Rightarrow> 'k option \<times> 'i"
  udp_bind :: "u16 \<Rightarrow> 'k option"
  udp_send :: "nat \<Rightarrow> u8 list \<Rightarrow> u8 list \<times> u16 \<Rightarrow> 's \<Rightarrow> bool \<times> 's"
  udp_can_recv :: "nat \<Rightarrow> 's \<Rightarrow> bool"
  udp_recv :: "nat \<Rightarrow> usize \<Rightarrow> 's \<Rightarrow> u8 list option \<times> 's"

text \<open>What the kernel runs on: the ports, the memory the card shares, the IP stack, and how many
  iterations the loops that wait for one of them are given.\<close>

record ('h, 'i, 's, 'k) platform =
  ports :: "'h ports"
  ring :: "'h \<Rightarrow> u8 list"
  stack :: "('i, 's, 'k) smoltcp"
  patience :: nat

section \<open>Tokens and the device trait\<close>

definition rx_consume :: "u8 list \<Rightarrow> (u8 list \<Rightarrow> 'r) \<Rightarrow> 'r" where
  "rx_consume payload f = f payload"

text \<open>The closure stores its bytes in a zeroed buffer of the length asked for.\<close>

definition tx_consume :: "'h ports \<Rightarrow> usize \<Rightarrow> (usize \<Rightarrow> u8) \<Rightarrow> rtl8139 \<Rightarrow> 'h \<Rightarrow> (rtl8139 \<times> 'h) outcome" where
  "tx_consume P len f dev hw = tx_raw P (map f [0..<len]) dev hw"

definition receive ::
    "('h, 'i, 's, 'k) platform \<Rightarrow> rtl8139 \<Rightarrow> 'h \<Rightarrow> (u8 list option \<times> rtl8139 \<times> 'h) outcome" where
  "receive pf dev hw = rx_poll (ports pf) (ring pf) dev hw"

definition capabilities :: device_capabilities where
  "capabilities = \<lparr>max_transmission_unit = 1500, max_burst_size = Some 1\<rparr>"

section \<open>The network stack\<close>

record ('i, 's) network_stack =
  iface :: 'i
  sockets :: 's
  device :: rtl8139

definition net_init ::
    "('h, 'i, 's, 'k) platform \<Rightarrow> rtl8139 \<Rightarrow> console \<Rightarrow> (('i, 's) network_stack \<times> console) outcome" where
  "net_init pf dev con =
     (let i = iface_new (stack pf) (mac dev) 0x12345678 capabilities 0 in
      case push_ip_addr (stack pf) [10, 0, 2, 15] 24 i of
        None \<Rightarrow> Panic UnwrapFailed
      | Some i \<Rightarrow>
          (case add_default_route (stack pf) [10, 0, 2, 2] i of
             None \<Rightarrow> Panic UnwrapFailed
           | Some i \<Rightarrow>
               Done (\<lparr>iface = i, sockets = socket_set_new (stack pf), device = dev\<rparr>,
                     serial_println ''[NET] IP Stack Configured: 10.0.2.15/24 (Gateway 10.0.2.2)'' con)))"

text \<open>One \<^verbatim>\<open>Interface::poll\<close>: the calls smoltcp makes, answered by the card.\<close>

fun run_poll ::
    "('h, 'i, 's, 'k) platform \<Rightarrow> int \<Rightarrow> nat \<Rightarrow> poll_answer list \<Rightarrow> ('i, 's) network_stack \<Rightarrow> 'h
      \<Rightarrow> (('i, 's) network_stack \<times> 'h) outcome" where
  "run_poll pf t 0 as net hw = Panic Hang"
| "run_poll pf t (Suc n) as net hw =
     (case poll_next (stack pf) t (iface net) (sockets net) as of
        PollReturn i s \<Rightarrow> Done (net\<lparr>iface := i, sockets := s\<rparr>, hw)
      | PollReceive \<Rightarrow>
          obind (receive pf (device net) hw) (\<lambda>(token, dev, hw).
            run_poll pf t n (as @ [Received (map_option (\<lambda>payload. rx_consume payload (\<lambda>bytes. bytes)) token)])
              (net\<lparr>device := dev\<rparr>) hw)
      | PollTransmit len f \<Rightarrow>
          obind (tx_consume (ports pf) len f (device net) hw) (\<lambda>(dev, hw).
            run_poll pf t n (as @ [Transmitted]) (net\<lparr>device := dev\<rparr>) hw))"

definition iface_poll ::
    "('h, 'i, 's, 'k) platform \<Rightarrow> int \<Rightarrow> ('i, 's) network_stack \<Rightarrow> 'h \<Rightarrow> (('i, 's) network_stack \<times> 'h) outcome" where
  "iface_poll pf t net hw = run_poll pf t (patience pf) [] net hw"

section \<open>What the kernel relies on\<close>

text \<open>
  The card, seen from its base port: \<open>I off hw\<close> says that the ring is in order for a driver that
  reads next at offset \<open>off\<close>. A card that keeps it never shows a length field the ring cannot hold at
  the offset the driver reads, and is not disturbed by the registers the driver writes to transmit.
\<close>

definition card_follows :: "('h, 'i, 's, 'k) platform \<Rightarrow> u16 \<Rightarrow> (usize \<Rightarrow> 'h \<Rightarrow> bool) \<Rightarrow> bool" where
  "card_follows pf base I \<longleftrightarrow>
     (\<forall>hw. length (ring pf hw) = RX_BUFFER_SIZE) \<and>
     (\<forall>off hw cmd hw'. I off hw \<longrightarrow> inb (ports pf) (base + REG_CMD) hw = (cmd, hw') \<longrightarrow>
        (if cmd AND 1 \<noteq> 0 then I off hw'
         else frame_length (ring pf hw') off \<le> 8185 \<and> I (next_offset off (frame_length (ring pf hw') off)) hw')) \<and>
     (\<forall>off hw p v. I off hw \<longrightarrow> I off (outl (ports pf) p v hw))"

text \<open>smoltcp's documented behaviour: a frame is no longer than the device's maximum transmission unit.\<close>

definition frames_within_mtu :: "('i, 's, 'k) smoltcp \<Rightarrow> bool" where
  "frames_within_mtu S \<longleftrightarrow>
     (\<forall>t i s as len f. poll_next S t i s as = PollTransmit len f \<longrightarrow> len \<le> max_transmission_unit capabilities)"

text \<open>
  Also documented: a poll receives the packets queued in the device, so it returns only after a
  receive that found none. The card clears the buffer-empty bit of its command register when it stores a frame
  and sets it when the driver has moved the read pointer \<^verbatim>\<open>CAPR\<close> (at 0x38) up to the last frame;
  \<open>B hw\<close> says that frames are waiting, and a 32-bit write to registers below \<^verbatim>\<open>CAPR\<close> does not change that.
\<close>

definition poll_drains :: "('i, 's, 'k) smoltcp \<Rightarrow> bool" where
  "poll_drains S \<longleftrightarrow>
     (\<forall>t i s as i' s'. poll_next S t i s as = PollReturn i' s' \<longrightarrow> Received None \<in> set as)"

definition REG_CAPR :: u16 where "REG_CAPR = 0x38"

definition frames_wait :: "('h, 'i, 's, 'k) platform \<Rightarrow> u16 \<Rightarrow> ('h \<Rightarrow> bool) \<Rightarrow> bool" where
  "frames_wait pf base B \<longleftrightarrow>
     (\<forall>hw cmd hw'. B hw \<longrightarrow> inb (ports pf) (base + REG_CMD) hw = (cmd, hw') \<longrightarrow> cmd AND 1 = 0 \<and> B hw') \<and>
     (\<forall>hw p v. B hw \<longrightarrow> unat (p - base) + 3 < unat REG_CAPR \<longrightarrow> B (outl (ports pf) p v hw))"

text \<open>Some poll of the interface does not finish within the calls it is given.\<close>

definition poll_stuck :: "('h, 'i, 's, 'k) platform \<Rightarrow> bool" where
  "poll_stuck pf \<longleftrightarrow> (\<exists>t net hw. iface_poll pf t net hw = Panic Hang)"

section \<open>Polling\<close>

definition net_ok :: "(usize \<Rightarrow> 'h \<Rightarrow> bool) \<Rightarrow> u16 \<Rightarrow> ('i, 's) network_stack \<Rightarrow> 'h \<Rightarrow> bool" where
  "net_ok I base net hw \<longleftrightarrow>
     device_ok (device net) \<and> io_base (device net) = base \<and> I (rx_offset (device net)) hw"

lemma frames_within_mtuD:
  "frames_within_mtu S \<Longrightarrow> poll_next S t i s as = PollTransmit len f \<Longrightarrow> len \<le> 1500"
  unfolding frames_within_mtu_def capabilities_def by fastforce

lemma receive_ok:
  assumes "card_follows pf base I" and "device_ok dev" and "io_base dev = base" and "I (rx_offset dev) hw"
  shows "\<exists>token dev' hw'. receive pf dev hw = Done (token, dev', hw') \<and>
    device_ok dev' \<and> io_base dev' = base \<and> I (rx_offset dev') hw'"
proof -
  obtain cmd hw' where rd: "inb (ports pf) (io_base dev + REG_CMD) hw = (cmd, hw')" by fastforce
  have len: "length (ring pf hw') = RX_BUFFER_SIZE" using assms(1) by (simp add: card_follows_def)
  have off: "rx_offset dev + 3 < RX_BUFFER_SIZE"
    using device_okD(5) [OF assms(2)] by (simp add: RX_BUFFER_SIZE_def)
  have card: "if cmd AND 1 \<noteq> 0 then I (rx_offset dev) hw'
      else frame_length (ring pf hw') (rx_offset dev) \<le> 8185 \<and>
           I (next_offset (rx_offset dev) (frame_length (ring pf hw') (rx_offset dev))) hw'"
    using assms rd unfolding card_follows_def by blast
  note poll = rx_poll_eq [OF device_okD(1) [OF assms(2)] rd, of "ring pf", OF len off]
  show ?thesis
  proof (cases "cmd AND 1 = 0")
    case False
    then show ?thesis using poll card assms(2,3) by (simp add: receive_def)
  next
    case True
    let ?l = "frame_length (ring pf hw') (rx_offset dev)"
    have "device_ok (dev\<lparr>rx_offset := next_offset (rx_offset dev) ?l\<rparr>)"
      using next_offset_ok(1,2) [OF device_okD(5) [OF assms(2)], of ?l] card True assms(2)
      by (simp add: device_ok_def)
    then show ?thesis using poll card True assms(3) by (simp add: receive_def Let_def)
  qed
qed

lemma tx_consume_ok:
  assumes "card_follows pf base I" and "device_ok dev" and "io_base dev = base" and "I (rx_offset dev) hw"
    and "len \<le> 1500"
  shows "\<exists>dev' hw'. tx_consume (ports pf) len f dev hw = Done (dev', hw') \<and>
    device_ok dev' \<and> io_base dev' = base \<and> I (rx_offset dev') hw'"
proof -
  have "length (map f [0..<len]) \<le> 2048" using assms(5) by simp
  note tx = tx_raw_eq [OF assms(2) this, of "ports pf" hw]
  obtain dev' hw' where d: "tx_consume (ports pf) len f dev hw = Done (dev', hw')"
    and keep: "io_base dev' = io_base dev" "rx_offset dev' = rx_offset dev" "I (rx_offset dev) hw'"
    using tx assms(1,4) unfolding tx_consume_def card_follows_def by auto
  have "device_ok dev'" by (rule device_ok_tx_raw [OF assms(2) d [unfolded tx_consume_def]])
  then show ?thesis using d keep assms(3) by simp
qed

lemma run_poll_ok:
  assumes "card_follows pf base I" and "frames_within_mtu (stack pf)" and "net_ok I base net hw"
  shows "(\<exists>net' hw'. run_poll pf t n as net hw = Done (net', hw') \<and> net_ok I base net' hw') \<or>
    run_poll pf t n as net hw = Panic Hang"
  using assms(3)
proof (induction n arbitrary: as net hw)
  case 0
  then show ?case by simp
next
  case (Suc n)
  note net = Suc.prems [unfolded net_ok_def]
  show ?case
  proof (cases "poll_next (stack pf) t (iface net) (sockets net) as")
    case (PollReturn i s)
    then show ?thesis using net by (simp add: net_ok_def)
  next
    case PollReceive
    obtain token dev hw1 where r: "receive pf (device net) hw = Done (token, dev, hw1)"
      "device_ok dev" "io_base dev = base" "I (rx_offset dev) hw1"
      using receive_ok [OF assms(1)] net by blast
    moreover from this have "net_ok I base (net\<lparr>device := dev\<rparr>) hw1" by (simp add: net_ok_def)
    ultimately show ?thesis using PollReceive by (simp add: Suc.IH)
  next
    case (PollTransmit len f)
    then have "len \<le> 1500" using assms(2) by (rule frames_within_mtuD [rotated])
    then obtain dev hw1 where "tx_consume (ports pf) len f (device net) hw = Done (dev, hw1)"
      "device_ok dev" "io_base dev = base" "I (rx_offset dev) hw1"
      using tx_consume_ok [OF assms(1)] net by blast
    moreover from this have "net_ok I base (net\<lparr>device := dev\<rparr>) hw1" by (simp add: net_ok_def)
    ultimately show ?thesis using PollTransmit by (simp add: Suc.IH)
  qed
qed

lemma run_poll_more_calls: "run_poll pf t n as net hw = Done x \<Longrightarrow> n \<le> m \<Longrightarrow> run_poll pf t m as net hw = Done x"
proof (induction n arbitrary: m as net hw)
  case (Suc n)
  then obtain m' where "m = Suc m'" "n \<le> m'" by (cases m) simp_all
  then show ?case using Suc.prems(1) by (auto simp: outcome_simps Suc.IH split: poll_call.splits)
qed simp

lemma iface_poll_ok:
  assumes "card_follows pf base I" and "frames_within_mtu (stack pf)" and "net_ok I base net hw"
  shows "(\<exists>net' hw'. iface_poll pf t net hw = Done (net', hw') \<and> net_ok I base net' hw') \<or>
    (iface_poll pf t net hw = Panic Hang \<and> poll_stuck pf)"
  using run_poll_ok [OF assms, of t "patience pf" "[]"] unfolding poll_stuck_def iface_poll_def by blast

lemma receive_waiting:
  assumes "card_follows pf base I" and "frames_wait pf base B" and "device_ok dev" and "io_base dev = base"
    and "B hw" and "receive pf dev hw = Done (token, dev', hw')"
  shows "token \<noteq> None \<and> B hw'"
proof -
  obtain cmd hw1 where rd: "inb (ports pf) (io_base dev + REG_CMD) hw = (cmd, hw1)" by fastforce
  then have "cmd AND 1 = 0 \<and> B hw1" using assms(2,4,5) unfolding frames_wait_def by blast
  moreover have "length (ring pf hw1) = RX_BUFFER_SIZE" using assms(1) by (simp add: card_follows_def)
  moreover have "rx_offset dev + 3 < RX_BUFFER_SIZE"
    using device_okD(5) [OF assms(3)] by (simp add: RX_BUFFER_SIZE_def)
  ultimately show ?thesis
    using rx_poll_eq [OF device_okD(1) [OF assms(3)] rd, of "ring pf"] assms(6) by (auto simp: receive_def Let_def)
qed

text \<open>The registers of a transmit slot lie below \<^verbatim>\<open>CAPR\<close>.\<close>

lemma tx_registers_below_capr:
  assumes "i < 4"
  shows "unat (base + REG_TSD0 + of_nat (i * 4) - base) + 3 < unat REG_CAPR"
    "unat (base + REG_TSAD0 + of_nat (i * 4) - base) + 3 < unat REG_CAPR"
proof -
  have "base + r + of_nat (i * 4) - base = r + of_nat (i * 4)" for r :: u16 by simp
  moreover have "i = 0 \<or> i = 1 \<or> i = 2 \<or> i = 3" using assms by linarith
  ultimately show "unat (base + REG_TSD0 + of_nat (i * 4) - base) + 3 < unat REG_CAPR"
    "unat (base + REG_TSAD0 + of_nat (i * 4) - base) + 3 < unat REG_CAPR"
    by (auto simp: reg_defs REG_CAPR_def)
qed

lemma tx_consume_waiting:
  assumes "frames_wait pf base B" and "device_ok dev" and "io_base dev = base" and "len \<le> 1500"
    and "B hw" and "tx_consume (ports pf) len f dev hw = Done (dev', hw')"
  shows "B hw'"
proof -
  have out: "B (outl (ports pf) p v hw)" if "B hw" "unat (p - base) + 3 < unat REG_CAPR" for p v hw
    using assms(1) that unfolding frames_wait_def by blast
  have "length (map f [0..<len]) \<le> 2048" using assms(4) by simp
  from tx_raw_eq [OF assms(2) this, of "ports pf" hw] show ?thesis
    using assms(3,5,6) tx_registers_below_capr [OF device_okD(3) [OF assms(2)]]
    by (auto simp: tx_consume_def intro!: out)
qed

lemma run_poll_waiting:
  assumes "card_follows pf base I" and "frames_within_mtu (stack pf)" and "poll_drains (stack pf)"
    and "frames_wait pf base B" and "net_ok I base net hw" and "B hw" and "Received None \<notin> set as"
  shows "run_poll pf t n as net hw = Panic Hang"
  using assms(5-7)
proof (induction n arbitrary: as net hw)
  case 0
  then show ?case by simp
next
  case (Suc n)
  note net = Suc.prems(1) [unfolded net_ok_def]
  show ?case
  proof (cases "poll_next (stack pf) t (iface net) (sockets net) as")
    case (PollReturn i s)
    then show ?thesis using assms(3) Suc.prems(3) unfolding poll_drains_def by blast
  next
    case PollReceive
    obtain token dev hw1 where r: "receive pf (device net) hw = Done (token, dev, hw1)"
      "device_ok dev" "io_base dev = base" "I (rx_offset dev) hw1"
      using receive_ok [OF assms(1)] net by blast
    moreover have "token \<noteq> None \<and> B hw1" using receive_waiting [OF assms(1,4) _ _ Suc.prems(2) r(1)] net by blast
    moreover have "net_ok I base (net\<lparr>device := dev\<rparr>) hw1" using r by (simp add: net_ok_def)
    ultimately show ?thesis using PollReceive Suc.prems(3) by (simp add: Suc.IH)
  next
    case (PollTransmit len f)
    then have len: "len \<le> 1500" using assms(2) by (rule frames_within_mtuD [rotated])
    then obtain dev hw1 where r: "tx_consume (ports pf) len f (device net) hw = Done (dev, hw1)"
      "device_ok dev" "io_base dev = base" "I (rx_offset dev) hw1"
      using tx_consume_ok [OF assms(1)] net by blast
    moreover have "B hw1" using tx_consume_waiting [OF assms(4) _ _ len Suc.prems(2) r(1)] net by blast
    moreover have "net_ok I base (net\<lparr>device := dev\<rparr>) hw1" using r by (simp add: net_ok_def)
    ultimately show ?thesis using PollTransmit Suc.prems(3) by (simp add: Suc.IH)
  qed
qed

section \<open>A concrete platform\<close>

text \<open>A stack that receives once, sends one frame of 64 bytes and returns; its socket set lists the
  open handles, a socket is what will be received on it. The card's ring is all zeros.\<close>

definition sample_stack :: "(unit, (nat \<times> u8 list) list, u8 list) smoltcp" where
  "sample_stack =
     \<lparr>iface_new = (\<lambda>_ _ _ _. ()), push_ip_addr = (\<lambda>_ _ i. Some i), add_default_route = (\<lambda>_ i. Some i),
      socket_set_new = [],
      poll_next = (\<lambda>t i s as. if as = [] then PollReceive
                    else if length as = 1 then PollTransmit 64 (\<lambda>_. 0x55) else PollReturn i s),
      sockets_add = (\<lambda>k s. let h = Suc (sum_list (map fst s)) in (h, (h, k) # s)),
      sockets_remove = (\<lambda>h. filter (\<lambda>(h', _). h' \<noteq> h)),
      tcp_connect = (\<lambda>i (ip, p) l. (if p = 0 then None else Some [], i)),
      udp_bind = (\<lambda>p. Some (replicate 13 0)),
      udp_send = (\<lambda>h bs ep s. (length bs \<le> 1024, s)),
      udp_can_recv = (\<lambda>h s. map_of s h \<noteq> None),
      udp_recv = (\<lambda>h n s. (map_option (take n) (map_of s h), s))\<rparr>"

definition sample_platform :: "(unit, unit, (nat \<times> u8 list) list, u8 list) platform" where
  "sample_platform = \<lparr>ports = sample_ports, ring = (\<lambda>_. replicate RX_BUFFER_SIZE 0), stack = sample_stack, patience = 3\<rparr>"

definition sample_net :: "(unit, (nat \<times> u8 list) list) network_stack" where
  "sample_net = \<lparr>iface = (), sockets = [], device = sample_device\<rparr>"

lemma frame_length_zero: "off < 8192 \<Longrightarrow> frame_length (replicate RX_BUFFER_SIZE 0) off = 0"
  by (simp add: frame_length_def RX_BUFFER_SIZE_def)

lemma sample_card_follows: "card_follows sample_platform base (\<lambda>off hw. off < 8192)"
  using next_offset_ok(1) [of _ 0]
  by (auto simp: card_follows_def sample_platform_def frame_length_zero)

lemma sample_frames_within_mtu: "frames_within_mtu sample_stack"
  by (simp add: frames_within_mtu_def sample_stack_def capabilities_def)

text \<open>The driver itself never hangs, so its polls end after two calls.\<close>

lemma no_hang: "word_add a b \<noteq> Panic Hang" "word_mul a b \<noteq> Panic Hang" "word_sub a b \<noteq> Panic Hang"
  "usize_add i j \<noteq> Panic Hang" "index xs i \<noteq> Panic Hang" "slice_range xs i j \<noteq> Panic Hang"
  by (simp_all add: word_add_def word_mul_def word_sub_def usize_add_def index_def slice_range_def)

lemma map_outcome_Panic_iff: "map_outcome f m = Panic p \<longleftrightarrow> m = Panic p"
  by (cases m) simp_all

lemma copy_packet_no_hang: "copy_packet buf off is \<noteq> Panic Hang"
  by (induction "is") (simp_all add: obind_Panic_iff map_outcome_Panic_iff no_hang)

lemma receive_no_hang: "receive pf dev hw \<noteq> Panic Hang"
  by (auto simp: receive_def rx_poll_def obind_Panic_iff no_hang copy_packet_no_hang Let_def split: prod.splits if_splits)

lemma tx_consume_no_hang: "tx_consume P len f dev hw \<noteq> Panic Hang"
  by (auto simp: tx_consume_def tx_raw_def virt_to_phys_def map_outcome_Panic_iff obind_Panic_iff no_hang Let_def)

lemma run_poll_sample:
  assumes "stack pf = sample_stack"
  shows "length as \<le> 2 \<Longrightarrow> 3 \<le> n + length as \<Longrightarrow> run_poll pf t n as net hw \<noteq> Panic Hang"
proof (induction n arbitrary: as net hw)
  case (Suc n)
  have q: "poll_next (stack pf) t i s as = (if as = [] then PollReceive
      else if length as = 1 then PollTransmit 64 (\<lambda>_. 0x55) else PollReturn i s)" for i s
    by (simp add: assms sample_stack_def)
  show ?case
    using Suc by (auto simp: q obind_Panic_iff receive_no_hang tx_consume_no_hang)
qed simp

lemma sample_poll_not_stuck: "stack pf = sample_stack \<Longrightarrow> 3 \<le> patience pf \<Longrightarrow> \<not> poll_stuck pf"
  using run_poll_sample [of pf "[]" "patience pf"] by (simp add: poll_stuck_def iface_poll_def)

lemma sample_net_ok: "net_ok (\<lambda>off hw. off < 8192) 0xC000 sample_net ()"
  using sample_device_ok by (simp add: net_ok_def sample_net_def sample_device_def)

text \<open>A stack that drains the card: it answers every frame with a frame of 64 bytes and returns when nothing is left.\<close>

definition draining_stack :: "(unit, (nat \<times> u8 list) list, u8 list) smoltcp" where
  "draining_stack = sample_stack\<lparr>poll_next := (\<lambda>t i s as.
     if as = [] then PollReceive
     else case last as of
       Received None \<Rightarrow> PollReturn i s
     | Received (Some _) \<Rightarrow> PollTransmit 64 (\<lambda>_. 0x55)
     | Transmitted \<Rightarrow> PollReceive)\<rparr>"

section \<open>Properties\<close>





end
