(* ===== verification/Dns.thy ===== *)
theory Dns
  imports Rust_Std
begin

text \<open>
  The wire format of the DNS stub resolver, \<^verbatim>\<open>src/dns.rs\<close>: building the query packet and
  extracting the first address record of a response. (\<^verbatim>\<open>resolve\<close>, which sends the one and
  receives the other, is in \<open>Resolver\<close>.)
\<close>

section \<open>Operations\<close>

definition encode_label :: "string \<Rightarrow> u8 list" where
  "encode_label label = of_nat (length label) # as_bytes label"

definition query_header :: "u8 list" where
  "query_header = [0xAB, 0xCD] @ [0x01, 0x00] @ [0x00, 0x01] @ [0x00, 0x00] @ [0x00, 0x00] @ [0x00, 0x00]"

definition build_dns_query :: "string \<Rightarrow> u8 list" where
  "build_dns_query domain =
     query_header @ concat (map encode_label (split_on CHR ''.'' domain)) @ [0x00] @
     [0x00, 0x01] @ [0x00, 0x01]"

text \<open>The loop \<^verbatim>\<open>while offset < data.len() && data[offset] != 0 { offset += 1 + len }\<close>.\<close>

function skip_labels :: "u8 list \<Rightarrow> usize \<Rightarrow> usize outcome" where
  "skip_labels data offset =
     (if offset < length data \<and> data ! offset \<noteq> 0
      then obind (usize_add offset (1 + unat (data ! offset))) (\<lambda>offset'. skip_labels data offset')
      else Done offset)"
  by pat_completeness auto
termination
  by (relation "measure (\<lambda>(data, offset). length data - offset)")
    (auto simp: usize_add_Done_iff)

declare skip_labels.simps [simp del]

text \<open>The name at the start of an answer: a compression pointer, or labels.\<close>

definition skip_answer_name :: "u8 list \<Rightarrow> usize \<Rightarrow> usize outcome" where
  "skip_answer_name data offset =
     obind (index data offset) (\<lambda>b.
       if b AND 0xC0 = 0xC0 then usize_add offset 2
       else obind (skip_labels data offset) (\<lambda>offset. usize_add offset 1))"

fun parse_answers :: "u8 list \<Rightarrow> nat \<Rightarrow> usize \<Rightarrow> u8 list option outcome" where
  "parse_answers data 0 offset = Done None"
| "parse_answers data (Suc n) offset =
     obind (usize_add offset 12) (\<lambda>fixed_end.
     if fixed_end > length data then Done None
     else
       obind (skip_answer_name data offset) (\<lambda>offset.
       obind (usize_add offset 10) (\<lambda>fixed_end.
       if fixed_end > length data then Done None
       else
         obind (index data offset) (\<lambda>t0.
         obind (index data (offset + 1)) (\<lambda>t1.
         obind (index data (offset + 8)) (\<lambda>l0.
         obind (index data (offset + 9)) (\<lambda>l1.
         let rtype = u16_from_be_bytes t0 t1; rdlength = unat (u16_from_be_bytes l0 l1) in
         obind (usize_add offset 10) (\<lambda>offset.
         obind (if rtype = 1 \<and> rdlength = 4 then map_outcome (\<lambda>addr_end. addr_end \<le> length data) (usize_add offset 4)
                else Done False) (\<lambda>found.
         if found then map_outcome Some (slice_range data offset (offset + 4))
         else obind (usize_add offset rdlength) (\<lambda>offset. parse_answers data n offset))))))))))"

definition parse_dns_response :: "u8 list \<Rightarrow> u8 list option outcome" where
  "parse_dns_response data =
     (if length data < 12 then Done None
      else
        obind (index data 6) (\<lambda>a0.
        obind (index data 7) (\<lambda>a1.
        let ancount = unat (u16_from_be_bytes a0 a1) in
        if ancount = 0 then Done None
        else
          obind (skip_labels data 12) (\<lambda>offset.
          obind (usize_add offset 1) (\<lambda>offset.
          obind (usize_add offset 4) (\<lambda>offset.
          parse_answers data ancount offset))))))"

section \<open>No panic on any packet\<close>

lemma skip_labels_total:
  assumes "length data \<le> isize_max" and "offset \<le> length data + 256"
  shows "\<exists>offset'. skip_labels data offset = Done offset' \<and> offset \<le> offset' \<and> offset' \<le> length data + 256"
  using assms
proof (induction data offset rule: skip_labels.induct)
  case (1 data offset)
  show ?case
  proof (cases "offset < length data \<and> data ! offset \<noteq> 0")
    case True
    let ?o = "offset + (1 + unat (data ! offset))"
    have "unat (data ! offset) < 256" by simp
    then have le: "?o \<le> length data + 256" using True by linarith
    then have add: "usize_add offset (1 + unat (data ! offset)) = Done ?o"
      using 1(2) by (simp add: isize_max_def usize_bound_def)
    then obtain o' where "skip_labels data ?o = Done o'" "?o \<le> o'" "o' \<le> length data + 256"
      using 1(1) [OF True add 1(2) le] by blast
    then show ?thesis using True add by (simp add: skip_labels.simps [of data offset])
  next
    case False
    then show ?thesis using 1(3) by (auto simp: skip_labels.simps [of data offset])
  qed
qed

lemma skip_answer_name_total:
  assumes "length data \<le> isize_max" and "offset + 12 \<le> length data"
  shows "\<exists>offset'. skip_answer_name data offset = Done offset' \<and> offset' \<le> length data + 257"
proof -
  have small: "length data < 2 ^ 63" using assms(1) by (simp add: isize_max_def)
  obtain o' where o': "skip_labels data offset = Done o'" "o' \<le> length data + 256"
    using skip_labels_total [OF assms(1), of offset] assms(2) by auto
  have "usize_add offset 2 = Done (offset + 2)" "usize_add o' 1 = Done (o' + 1)"
    using small assms(2) o'(2) by (simp_all add: usize_bound_def)
  then show ?thesis using o' assms(2) by (simp add: skip_answer_name_def)
qed

lemma parse_answers_total:
  assumes "length data \<le> isize_max" and "offset \<le> length data + 2 ^ 17"
  shows "\<exists>r. parse_answers data n offset = Done r \<and> (\<forall>ip. r = Some ip \<longrightarrow> length ip = 4)"
  using assms(2)
proof (induction n arbitrary: offset)
  case 0
  then show ?case by simp
next
  case (Suc n)
  have small: "length data < 2 ^ 63" using assms(1) by (simp add: isize_max_def)
  have a12: "usize_add offset 12 = Done (offset + 12)"
    using Suc.prems small by (simp add: usize_bound_def)
  show ?case
  proof (cases "offset + 12 \<le> length data")
    case True
    obtain o1 where o1: "skip_answer_name data offset = Done o1" "o1 \<le> length data + 257"
      using skip_answer_name_total [OF assms(1) True] by blast
    have a10: "usize_add o1 10 = Done (o1 + 10)" using o1(2) small by (simp add: usize_bound_def)
    show ?thesis
    proof (cases "o1 + 10 \<le> length data")
      case fixed: True
      let ?len = "unat (u16_from_be_bytes (data ! (o1 + 8)) (data ! (o1 + 9)))"
      have "?len < 65536" by simp
      then have le: "o1 + 10 + ?len \<le> length data + 2 ^ 17"
        using fixed by (simp del: unat_u16_less)
      then have adds: "usize_add (o1 + 10) 4 = Done (o1 + 14)" "usize_add (o1 + 10) ?len = Done (o1 + 10 + ?len)"
        using fixed small by (simp_all add: usize_bound_def)
      show ?thesis
        using Suc.IH [OF le] True fixed a12 o1(1) a10 adds by (auto simp: Let_def add.commute [of 14])
    next
      case False
      then show ?thesis using True a12 o1(1) a10 by simp
    qed
  next
    case False
    then show ?thesis using a12 by simp
  qed
qed

lemma parse_dns_response_total:
  assumes "length data \<le> isize_max"
  shows "\<exists>r. parse_dns_response data = Done r \<and> (\<forall>ip. r = Some ip \<longrightarrow> length ip = 4)"
proof (cases "length data < 12")
  case True
  then show ?thesis by (simp add: parse_dns_response_def)
next
  case False
  have small: "length data < 2 ^ 63" using assms by (simp add: isize_max_def)
  obtain o' where o': "skip_labels data 12 = Done o'" "o' \<le> length data + 256"
    using skip_labels_total [OF assms, of 12] False by auto
  have "usize_add o' 1 = Done (o' + 1)" "usize_add (o' + 1) 4 = Done (o' + 5)"
    using o'(2) small by (simp_all add: usize_bound_def)
  moreover have "o' + 5 \<le> length data + 2 ^ 17" using o'(2) by simp
  ultimately show ?thesis
    using False o'(1) parse_answers_total [OF assms, of "o' + 5"]
    by (simp add: parse_dns_response_def Let_def)
qed

section \<open>The format of RFC 1035\<close>

text \<open>A reference decoder for names without compression: labels of 1 to 63 bytes, then a zero.\<close>

function decode_name :: "u8 list \<Rightarrow> (string list \<times> u8 list) option" where
  "decode_name [] = None"
| "decode_name (l # bs) =
     (if l = 0 then Some ([], bs)
      else if 63 < l \<or> length bs < unat l then None
      else map_option (\<lambda>(ls, rest). (str_of_bytes (take (unat l) bs) # ls, rest)) (decode_name (drop (unat l) bs)))"
  by pat_completeness auto
termination
  by (relation "measure length") auto

definition label_ok :: "string \<Rightarrow> bool" where
  "label_ok l \<longleftrightarrow> 1 \<le> length l \<and> length l \<le> 63"

lemma unat_of_length: "length l \<le> 63 \<Longrightarrow> unat (of_nat (length l) :: u8) = length l"
  by (subst unat_of_nat) simp

lemma decode_name_label:
  assumes "label_ok l"
  shows "decode_name (encode_label l @ bs) = map_option (\<lambda>(ls, rest). (l # ls, rest)) (decode_name bs)"
proof -
  have len: "1 \<le> length l" "length l \<le> 63" using assms by (simp_all add: label_ok_def)
  let ?n = "of_nat (length l) :: u8"
  have n: "unat ?n = length l" using len(2) by (rule unat_of_length)
  then have "?n \<noteq> 0" using len(1) by (metis One_nat_def not_one_le_zero unat_0)
  moreover have "\<not> 63 < ?n" unfolding word_less_nat_alt n using len(2) by simp
  ultimately show ?thesis by (simp add: encode_label_def n)
qed

lemma decode_name_labels:
  "list_all label_ok ls \<Longrightarrow> decode_name (concat (map encode_label ls) @ 0 # bs) = Some (ls, bs)"
  by (induction ls) (simp_all add: decode_name_label)

text \<open>Resource records. The owner name is a compression pointer, as name servers send it, or a sequence of
  labels; RFC 1035 also allows labels that end in a pointer.\<close>

datatype owner = Pointer u8 u8 | Labels "string list"

fun owner_bytes :: "owner \<Rightarrow> u8 list" where
  "owner_bytes (Pointer hi lo) = [0xC0 OR hi, lo]"
| "owner_bytes (Labels ls) = concat (map encode_label ls) @ [0]"

fun owner_ok :: "owner \<Rightarrow> bool" where
  "owner_ok (Pointer hi lo) = True"
| "owner_ok (Labels ls) = list_all label_ok ls"

record rr =
  rr_owner :: owner
  rr_type :: u16
  rr_meta :: "u8 list"
  rr_data :: "u8 list"

definition rr_bytes :: "rr \<Rightarrow> u8 list" where
  "rr_bytes r = owner_bytes (rr_owner r) @ [ucast (drop_bit 8 (rr_type r)), ucast (rr_type r)] @ rr_meta r @
     [of_nat (length (rr_data r) div 256), of_nat (length (rr_data r) mod 256)] @ rr_data r"

definition rr_ok :: "rr \<Rightarrow> bool" where
  "rr_ok r \<longleftrightarrow> owner_ok (rr_owner r) \<and> length (rr_meta r) = 6 \<and> length (rr_data r) < 65536"

definition is_address :: "rr \<Rightarrow> bool" where
  "is_address r \<longleftrightarrow> rr_type r = 1 \<and> length (rr_data r) = 4"

lemma u16_be_type: "u16_from_be_bytes (ucast (drop_bit 8 t)) (ucast (t :: u16)) = t"
proof -
  have hi: "unat (ucast (drop_bit 8 t) :: u8) = unat t div 256"
  proof -
    have "unat t div 256 < 256" using unat_u16_less [of t] by (simp add: less_mult_imp_div_less)
    moreover have "drop_bit 8 (unat t) = unat t div 256" by (simp add: drop_bit_eq_div)
    ultimately show ?thesis by (simp add: unsigned_ucast_eq unat_drop_bit_eq take_bit_eq_mod)
  qed
  have lo: "unat (ucast t :: u8) = unat t mod 256"
    by (simp add: unsigned_ucast_eq take_bit_eq_mod)
  have "unat (u16_from_be_bytes (ucast (drop_bit 8 t)) (ucast t)) = unat t"
    unfolding unat_u16_from_be_bytes hi lo by simp
  then show ?thesis by (rule word_unat_eq_iff [THEN iffD2])
qed

lemma u16_be_length:
  assumes "n < 65536"
  shows "unat (u16_from_be_bytes (of_nat (n div 256)) (of_nat (n mod 256))) = n"
proof -
  have "n div 256 < 256" using assms by (simp add: less_mult_imp_div_less)
  then have "unat (of_nat (n div 256) :: u8) = n div 256" "unat (of_nat (n mod 256) :: u8) = n mod 256"
    by (subst unat_of_nat, simp)+
  then show ?thesis unfolding unat_u16_from_be_bytes by simp
qed

lemma parse_answers_step:
  assumes "length data < 2 ^ 63" and "offset + 12 \<le> length data"
    and "skip_answer_name data offset = Done o1" and "o1 + 10 \<le> length data"
    and "u16_from_be_bytes (data ! o1) (data ! (o1 + 1)) = t"
    and "unat (u16_from_be_bytes (data ! (o1 + 8)) (data ! (o1 + 9))) = k"
  shows "parse_answers data (Suc n) offset =
    (if t = 1 \<and> k = 4 \<and> o1 + 14 \<le> length data then Done (Some (take 4 (drop (o1 + 10) data)))
     else parse_answers data n (o1 + 10 + k))"
proof -
  have "k < 65536" using assms(6) unat_u16_less by metis
  then have adds: "usize_add offset 12 = Done (offset + 12)" "usize_add o1 10 = Done (o1 + 10)"
    "usize_add (o1 + 10) 4 = Done (o1 + 14)" "usize_add (o1 + 10) k = Done (o1 + 10 + k)"
    using assms(1,2,4) by (simp_all add: usize_bound_def)
  have "slice_range data (o1 + 10) (o1 + 14) = Done (take 4 (drop (o1 + 10) data))" if "o1 + 14 \<le> length data"
    using that by (simp add: slice_range_def)
  then show ?thesis using adds assms(2-) by (auto simp: parse_answers.simps Let_def add.commute [of 14])
qed

declare parse_answers.simps(2) [simp del]

lemma skip_labels_over:
  assumes "list_all label_ok ls" and "data = pre @ concat (map encode_label ls) @ post" and "length data \<le> isize_max"
  shows "skip_labels data (length pre) = skip_labels data (length pre + length (concat (map encode_label ls)))"
  using assms(1,2)
proof (induction ls arbitrary: pre)
  case (Cons l ls)
  have l: "1 \<le> length l" "length l \<le> 63" using Cons.prems(1) by (simp_all add: label_ok_def)
  let ?n = "of_nat (length l) :: u8"
  have n: "unat ?n = length l" using l(2) by (rule unat_of_length)
  then have nz: "?n \<noteq> 0" using l(1) by (metis One_nat_def not_one_le_zero unat_0)
  have at: "length pre < length data" "data ! length pre = ?n"
    using Cons.prems(2) by (simp_all add: encode_label_def)
  have "length pre + (1 + length l) \<le> length data" using Cons.prems(2) by (simp add: encode_label_def)
  then have add: "usize_add (length pre) (1 + length l) = Done (length (pre @ encode_label l))"
    using assms(3) by (simp add: isize_max_def usize_bound_def encode_label_def)
  have "skip_labels data (length pre) = skip_labels data (length (pre @ encode_label l))"
    using at nz add n by (simp add: skip_labels.simps [of data "length pre"])
  also have "\<dots> = skip_labels data (length (pre @ encode_label l) + length (concat (map encode_label ls)))"
    using Cons.prems by (intro Cons.IH) simp_all
  finally show ?case by (simp add: add.assoc)
qed simp

lemma skip_labels_question:
  assumes "list_all label_ok ls" and "data = pre @ concat (map encode_label ls) @ 0 # post"
    and "length data \<le> isize_max"
  shows "skip_labels data (length pre) = Done (length pre + length (concat (map encode_label ls)))"
proof -
  let ?e = "length pre + length (concat (map encode_label ls))"
  have "data ! ?e = 0" using assms(2) by (simp add: nth_append)
  then show ?thesis using skip_labels_over [OF assms] by (simp add: skip_labels.simps [of data ?e])
qed

lemma label_not_pointer:
  assumes "label_ok l"
  shows "(of_nat (length l) :: u8) AND 0xC0 \<noteq> 0xC0"
proof
  assume "(of_nat (length l) :: u8) AND 0xC0 = 0xC0"
  then have "(0xC0 :: u8) \<le> of_nat (length l)" by (metis word_and_le2)
  then show False using assms unat_of_length [of l] by (simp add: word_le_nat_alt label_ok_def)
qed

lemma skip_answer_name_owner:
  assumes "owner_ok w" and "data = pre @ owner_bytes w @ post" and "length data \<le> isize_max"
  shows "skip_answer_name data (length pre) = Done (length pre + length (owner_bytes w))"
proof (cases w)
  case (Pointer hi lo)
  have "(0xC0 OR hi) AND 0xC0 = (0xC0 :: u8)" by (simp add: bit_eq_iff bit_simps)
  then show ?thesis
    using Pointer assms(2,3) by (simp add: skip_answer_name_def usize_bound_def isize_max_def)
next
  case (Labels ls)
  have ls: "list_all label_ok ls" "data = pre @ concat (map encode_label ls) @ 0 # post" using assms(1,2) Labels by simp_all
  have first: "index data (length pre) = Done (data ! length pre)" "data ! length pre AND 0xC0 \<noteq> 0xC0"
    using ls label_not_pointer by (cases ls; simp add: encode_label_def)+
  show ?thesis
    using first skip_labels_question [OF ls assms(3)] assms(3) ls(2) Labels
    by (simp add: skip_answer_name_def usize_bound_def isize_max_def)
qed

lemma parse_answers_short: "length data < offset + 12 \<Longrightarrow> offset < 2 ^ 63 \<Longrightarrow> parse_answers data n offset = Done None"
  by (cases n) (simp_all add: parse_answers.simps(2) usize_bound_def)

lemma parse_answers_record:
  assumes "data = pre @ rr_bytes r @ post" and "rr_ok r" and "length data \<le> isize_max"
  shows "parse_answers data (Suc n) (length pre) =
    (if is_address r then Done (Some (rr_data r)) else parse_answers data n (length pre + length (rr_bytes r)))"
proof (cases "length pre + 12 \<le> length data")
  case True
  let ?o = "length pre" and ?d = "rr_data r" and ?w = "length (owner_bytes (rr_owner r))"
  have ok: "owner_ok (rr_owner r)" "length (rr_meta r) = 6" "length ?d < 65536" using assms(2) by (simp_all add: rr_ok_def)
  have len: "length (rr_bytes r) = ?w + 10 + length ?d" using ok by (simp add: rr_bytes_def)
  have bound: "?o + ?w + 10 + length ?d \<le> length data" "length data < 2 ^ 63"
    using assms(1,3) len by (simp_all add: isize_max_def)
  have at: "data ! (?o + ?w + k) = drop ?w (rr_bytes r) ! k" if "k < 10" for k
    using that assms(1) len by (simp add: nth_append add.assoc)
  have bytes: "data ! (?o + ?w) = ucast (drop_bit 8 (rr_type r))"
    "data ! (?o + ?w + 1) = ucast (rr_type r)" "data ! (?o + ?w + 8) = of_nat (length ?d div 256)"
    "data ! (?o + ?w + 9) = of_nat (length ?d mod 256)"
    using at [of 0] at [of 1] at [of 8] at [of 9] ok(2) by (simp_all add: rr_bytes_def nth_append nth_Cons')
  have name: "skip_answer_name data ?o = Done (?o + ?w)"
    using skip_answer_name_owner [OF ok(1) _ assms(3)] assms(1) by (simp add: rr_bytes_def)
  have addr: "take 4 (drop (?o + ?w + 10) data) = ?d" if "length ?d = 4"
    using that assms(1) ok(2) by (simp add: rr_bytes_def)
  have t: "u16_from_be_bytes (data ! (?o + ?w)) (data ! (?o + ?w + 1)) = rr_type r"
    unfolding bytes by (rule u16_be_type)
  have k: "unat (u16_from_be_bytes (data ! (?o + ?w + 8)) (data ! (?o + ?w + 9))) = length ?d"
    unfolding bytes by (rule u16_be_length [OF ok(3)])
  have "parse_answers data (Suc n) ?o =
    (if rr_type r = 1 \<and> length ?d = 4 \<and> ?o + ?w + 14 \<le> length data
     then Done (Some (take 4 (drop (?o + ?w + 10) data)))
     else parse_answers data n (?o + ?w + 10 + length ?d))"
    by (rule parse_answers_step [OF bound(2) True name _ t k]) (use bound(1) in simp)
  then show ?thesis
    using addr bound(1) len by (cases "is_address r") (auto simp: is_address_def add.assoc)
next
  case False
  have len: "length (rr_bytes r) = length (owner_bytes (rr_owner r)) + 10 + length (rr_data r)"
    using assms(2) by (simp add: rr_bytes_def rr_ok_def)
  have w: "1 \<le> length (owner_bytes (rr_owner r))" by (cases "rr_owner r") simp_all
  have "length pre + length (rr_bytes r) \<le> length data" "length data < 2 ^ 63"
    using assms(1,3) by (simp_all add: isize_max_def)
  then have "\<not> is_address r" "length data < length pre + length (rr_bytes r) + 12" "length pre + length (rr_bytes r) < 2 ^ 63"
    using False len w by (auto simp: is_address_def)
  then show ?thesis using False by (simp add: parse_answers_short)
qed

text \<open>A name of labels that ends in a pointer is misread: the pointer's first byte is taken for the length of
  a label. Unless as many bytes follow, the record and all after it are lost.\<close>

lemma mixed_name_lost:
  assumes "list_all label_ok (l # ls)" and "p AND 0xC0 = 0xC0" and "data = pre @ concat (map encode_label (l # ls)) @ p # post"
    and "length post < unat p" and "length data \<le> isize_max"
  shows "parse_answers data (Suc n) (length pre) = Done None"
proof -
  define e where "e = length pre + length (concat (map encode_label (l # ls)))"
  have first: "data ! length pre AND 0xC0 \<noteq> 0xC0" "length pre < length data"
    using assms(3) label_not_pointer [of l] assms(1) by (simp_all add: encode_label_def)
  have at: "data ! e = p" "e < length data" "p \<noteq> 0" "length data < e + 1 + unat p"
    using assms(2,3,4) by (auto simp: nth_append e_def)
  have small: "e + 1 + unat p + 12 < usize_bound" "length pre + 12 < usize_bound"
    using assms(5) at(2) first(2) unat_u8_less [of p] by (simp_all add: usize_bound_def isize_max_def del: unat_u8_less)
  have "skip_labels data (length pre) = skip_labels data e"
    unfolding e_def by (rule skip_labels_over [OF assms(1,3,5)])
  also have "\<dots> = skip_labels data (e + 1 + unat p)"
    using at small(1) by (simp add: skip_labels.simps [of data e])
  also have "\<dots> = Done (e + 1 + unat p)"
    using at(4) by (subst skip_labels.simps) simp
  finally have "skip_answer_name data (length pre) = Done (e + 1 + unat p + 1)"
    using first small(1) by (simp add: skip_answer_name_def)
  then show ?thesis
    using small at(4) by (simp add: parse_answers.simps(2))
qed

lemma parse_answers_records:
  assumes "list_all rr_ok rs" and "data = pre @ concat (map rr_bytes rs) @ post" and "length data \<le> isize_max"
  shows "parse_answers data (length rs) (length pre) = Done (map_option rr_data (List.find is_address rs))"
  using assms(1,2)
proof (induction rs arbitrary: pre)
  case Nil
  then show ?case by simp
next
  case (Cons r rs)
  have r: "rr_ok r" and split: "data = pre @ rr_bytes r @ (concat (map rr_bytes rs) @ post)"
    using Cons.prems by simp_all
  have "parse_answers data (length rs) (length (pre @ rr_bytes r))
      = Done (map_option rr_data (List.find is_address rs))"
    using Cons.prems by (intro Cons.IH) simp_all
  then show ?case
    using parse_answers_record [OF split r assms(3), of "length rs"] by simp
qed

section \<open>Properties\<close>

text \<open>C19: Responses cannot crash the resolver. On every byte string a slice can hold, truncated,
  malicious or random, \<^verbatim>\<open>parse_dns_response\<close> terminates without an index or slice out of range
  and without overflow, and an answer it gives is four bytes long.\<close>

theorem parse_dns_response_never_panics:
  assumes "length data \<le> isize_max"
  shows "\<exists>r. parse_dns_response data = Done r \<and> (case r of None \<Rightarrow> True | Some ip \<Rightarrow> length ip = 4)"
  using parse_dns_response_total [OF assms] by (auto split: option.splits)

theorem parse_dns_response_never_panics_witness:
  "length (replicate 40 (0xC0 :: u8)) \<le> isize_max \<and>
   (\<exists>r. parse_dns_response (replicate 40 0xC0) = Done r \<and> (case r of None \<Rightarrow> True | Some ip \<Rightarrow> length ip = 4))"
proof -
  have len: "length (replicate 40 (0xC0 :: u8)) \<le> isize_max" by (simp add: isize_max_def)
  show ?thesis using parse_dns_response_never_panics [OF len] len by simp
qed

text \<open>C20: The query asks for the domain. When every label of the domain has 1 to 63 bytes, the
  packet \<^verbatim>\<open>build_dns_query\<close> makes is a 12-byte header followed by one question that an RFC 1035
  decoder reads back as exactly the labels of the domain, then type A and class IN.\<close>

theorem build_dns_query_roundtrip:
  assumes "list_all label_ok (split_on CHR ''.'' domain)"
  shows "take 12 (build_dns_query domain) = query_header \<and>
    decode_name (drop 12 (build_dns_query domain)) = Some (split_on CHR ''.'' domain, [0, 1, 0, 1]) \<and>
    join ''.'' (split_on CHR ''.'' domain) = domain"
proof -
  have "length query_header = 12" by (simp add: query_header_def)
  then have "drop 12 (build_dns_query domain) = concat (map encode_label (split_on CHR ''.'' domain)) @ 0 # [0, 1, 0, 1]"
    and "take 12 (build_dns_query domain) = query_header"
    by (simp_all add: build_dns_query_def)
  with decode_name_labels [OF assms] join_split_on show ?thesis by simp
qed

theorem build_dns_query_roundtrip_witness:
  "list_all label_ok (split_on CHR ''.'' ''example.com'') \<and>
   decode_name (drop 12 (build_dns_query ''example.com'')) = Some ([''example'', ''com''], [0, 1, 0, 1])"
proof -
  have s: "split_on CHR ''.'' ''example.com'' = [''example'', ''com'']" by simp
  have ok: "list_all label_ok (split_on CHR ''.'' ''example.com'')" unfolding s by (simp add: label_ok_def)
  show ?thesis using build_dns_query_roundtrip [OF ok] ok unfolding s by simp
qed

text \<open>C37: The resolver finds the first address. For a response with any header that announces its
  records, the question of a well-formed name, and answer records (aliases, other types, address records, in
  any order) each of whose owner names is a compression pointer or a sequence of labels with its
  terminator, but not labels that end in a pointer, \<^verbatim>\<open>parse_dns_response\<close> returns the data of the first
  record of type A with four bytes, and none if there is no such record. Nothing else of the header
  matters: neither the transaction identifier nor the flags nor the question are compared with the
  query, so any packet that reaches the port is accepted as the answer.\<close>

theorem parse_dns_response_first_address:
  assumes "length header = 12" and "header ! 6 = of_nat (length rs div 256)" and "header ! 7 = of_nat (length rs mod 256)"
    and "list_all label_ok ls" and "length qt = 4" and "list_all rr_ok rs" and "length rs < 65536"
    and "length (header @ concat (map encode_label ls) @ 0 # qt @ concat (map rr_bytes rs) @ rest) \<le> isize_max"
  shows "parse_dns_response (header @ concat (map encode_label ls) @ 0 # qt @ concat (map rr_bytes rs) @ rest)
    = Done (map_option rr_data (List.find is_address rs))"
proof -
  let ?q = "concat (map encode_label ls)"
  let ?data = "header @ ?q @ 0 # qt @ concat (map rr_bytes rs) @ rest"
  have at: "?data ! 6 = header ! 6" "?data ! 7 = header ! 7" using assms(1) by (simp_all add: nth_append)
  have an: "unat (u16_from_be_bytes (header ! 6) (header ! 7)) = length rs"
    unfolding assms(2,3) by (rule u16_be_length [OF assms(7)])
  have sk: "skip_labels ?data 12 = Done (12 + length ?q)"
    using skip_labels_question [OF assms(4) refl assms(8)] assms(1) by simp
  have split: "?data = (header @ ?q @ 0 # qt) @ concat (map rr_bytes rs) @ rest" by simp
  have "length (header @ ?q @ 0 # qt) = 12 + length ?q + 5" using assms(1,5) by simp
  then have pa: "parse_answers ?data (length rs) (12 + length ?q + 5)
      = Done (map_option rr_data (List.find is_address rs))"
    using parse_answers_records [OF assms(6) split assms(8)] by (simp only:)
  have "12 + length ?q + 5 \<le> isize_max" using assms(1,5,8) by simp
  then have adds: "usize_add (12 + length ?q) 1 = Done (12 + length ?q + 1)"
    "usize_add (12 + length ?q + 1) 4 = Done (12 + length ?q + 5)"
    by (simp_all add: isize_max_def usize_bound_def)
  have len: "12 \<le> length ?data" using assms(1) by simp
  have "parse_dns_response ?data = (if length rs = 0 then Done None
      else parse_answers ?data (length rs) (12 + length ?q + 5))"
    unfolding parse_dns_response_def using len at an sk adds by (simp add: Let_def)
  then show ?thesis using pa by simp
qed

definition sample_rr :: "owner \<Rightarrow> u16 \<Rightarrow> u8 list \<Rightarrow> rr" where
  "sample_rr w t d = \<lparr>rr_owner = w, rr_type = t, rr_meta = [0, 1, 0, 0, 0, 60], rr_data = d\<rparr>"

theorem parse_dns_response_first_address_witness:
  "parse_dns_response ([0, 0, 0x81, 0x80, 0, 1, 0, 2, 0, 0, 0, 0] @ concat (map encode_label [''a'', ''b'']) @
     0 # [0, 1, 0, 1] @ concat (map rr_bytes [sample_rr (Labels [''a'', ''b'']) 5 [1, 2, 3], sample_rr (Pointer 0 0x0C) 1 [93, 184, 216, 34]]) @ [])
   = Done (Some [93, 184, 216, 34])"
proof -
  let ?rs = "[sample_rr (Labels [''a'', ''b'']) 5 [1, 2, 3], sample_rr (Pointer 0 0x0C) 1 [93, 184, 216, 34]]"
  have "List.find is_address ?rs = Some (sample_rr (Pointer 0 0x0C) 1 [93, 184, 216, 34])"
    by (simp add: is_address_def sample_rr_def)
  moreover have "parse_dns_response ([0, 0, 0x81, 0x80, 0, 1, 0, 2, 0, 0, 0, 0] @
      concat (map encode_label [''a'', ''b'']) @ 0 # [0, 1, 0, 1] @ concat (map rr_bytes ?rs) @ [])
    = Done (map_option rr_data (List.find is_address ?rs))"
    by (rule parse_dns_response_first_address)
      (simp_all add: label_ok_def rr_ok_def sample_rr_def encode_label_def rr_bytes_def isize_max_def)
  ultimately show ?thesis by (simp add: sample_rr_def)
qed

end
