(* ===== verification/Resolver.thy ===== *)
theory Resolver
  imports Net Dns
begin

text \<open>
  \<^verbatim>\<open>dns::resolve\<close> of \<^verbatim>\<open>src/dns.rs\<close>: one UDP socket, one query, at most 200 polls of the interface,
  the first datagram of more than 12 bytes taken as the answer. The contents of the lock
  \<^verbatim>\<open>NETWORK\<close>, the hardware state and the console are passed through.
\<close>

section \<open>Operations\<close>

definition DNS_SERVER :: "u8 list" where "DNS_SERVER = [10, 0, 2, 3]"
definition DNS_PORT :: u16 where "DNS_PORT = 53"
definition LOCAL_PORT :: u16 where "LOCAL_PORT = 41234"

definition fmt_ip :: "u8 list \<Rightarrow> string" where
  "fmt_ip ip = join ''.'' (map (\<lambda>b. fmt_dec (unat b)) ip)"

text \<open>\<^verbatim>\<open>recv_slice(&mut buf)\<close> into 512 zero bytes, then \<^verbatim>\<open>&buf[..size]\<close>.\<close>

definition received_slice :: "u8 list \<Rightarrow> u8 list outcome" where
  "received_slice bytes = slice_range (take 512 (bytes @ replicate 512 0)) 0 (length bytes)"

fun resolve_loop ::
    "('h, 'i, 's, 'k) platform \<Rightarrow> nat \<Rightarrow> nat list \<Rightarrow> ('i, 's) network_stack \<Rightarrow> 'h
      \<Rightarrow> (u8 list option \<times> ('i, 's) network_stack \<times> 'h) outcome" where
  "resolve_loop pf handle [] net hw = Done (None, net, hw)"
| "resolve_loop pf handle (tick # ticks) net hw =
     obind (iface_poll pf (int (tick * 10)) net hw) (\<lambda>(net, hw).
     if udp_can_recv (stack pf) handle (sockets net) then
       (case udp_recv (stack pf) handle 512 (sockets net) of
          (Some bytes, s) \<Rightarrow>
            if length bytes > 12 then
              obind (received_slice bytes) (\<lambda>pkt.
              map_outcome (\<lambda>r. (r, net\<lparr>sockets := s\<rparr>, hw)) (parse_dns_response pkt))
            else resolve_loop pf handle ticks (net\<lparr>sockets := s\<rparr>) hw
        | (None, s) \<Rightarrow> resolve_loop pf handle ticks (net\<lparr>sockets := s\<rparr>) hw)
     else resolve_loop pf handle ticks net hw)"

definition resolve_report :: "string \<Rightarrow> u8 list option \<Rightarrow> console \<Rightarrow> console" where
  "resolve_report domain r con =
     (case r of
        Some ip \<Rightarrow> serial_println (''[DNS] Resolved '' @ domain @ '' -> '' @ fmt_ip ip) con
      | None \<Rightarrow> serial_println (''[DNS] Failed to resolve '' @ domain) con)"

definition resolve ::
    "('h, 'i, 's, 'k) platform \<Rightarrow> string \<Rightarrow> ('i, 's) network_stack option \<Rightarrow> 'h \<Rightarrow> console
      \<Rightarrow> (u8 list option \<times> ('i, 's) network_stack option \<times> 'h \<times> console) outcome" where
  "resolve pf domain guard hw con =
     (let query = build_dns_query domain in
      case guard of
        None \<Rightarrow> Done (None, None, hw, con)
      | Some net \<Rightarrow>
          (case udp_bind (stack pf) LOCAL_PORT of
             None \<Rightarrow> Done (None, Some net, hw, con)
           | Some socket \<Rightarrow>
               let (handle, s) = sockets_add (stack pf) socket (sockets net);
                   (sent, s) = udp_send (stack pf) handle query (DNS_SERVER, DNS_PORT) s;
                   net = net\<lparr>sockets := s\<rparr> in
               if \<not> sent then Done (None, Some net, hw, con)
               else
                 obind (resolve_loop pf handle [0..<200] net hw) (\<lambda>(r, net, hw).
                 Done (r, Some (net\<lparr>sockets := sockets_remove (stack pf) handle (sockets net)\<rparr>), hw,
                       resolve_report domain r con))))"

section \<open>What the resolver relies on\<close>

text \<open>A receive copies at most as many bytes as the buffer has.\<close>

definition recv_fits :: "('i, 's, 'k) smoltcp \<Rightarrow> bool" where
  "recv_fits S \<longleftrightarrow> (\<forall>h n s bytes s'. udp_recv S h n s = (Some bytes, s') \<longrightarrow> length bytes \<le> n)"

text \<open>
  The handles of a socket set, \<open>hs\<close>: adding a socket returns a new handle, removing one removes it,
  and sending, receiving and polling neither add nor remove sockets.
\<close>

definition handle_laws :: "('i, 's, 'k) smoltcp \<Rightarrow> ('s \<Rightarrow> nat set) \<Rightarrow> bool" where
  "handle_laws S hs \<longleftrightarrow>
     (\<forall>k s h s'. sockets_add S k s = (h, s') \<longrightarrow> h \<notin> hs s \<and> hs s' = insert h (hs s)) \<and>
     (\<forall>h s. hs (sockets_remove S h s) = hs s - {h}) \<and>
     (\<forall>h bs ep s. hs (snd (udp_send S h bs ep s)) = hs s) \<and>
     (\<forall>h n s. hs (snd (udp_recv S h n s)) = hs s) \<and>
     (\<forall>t i s as i' s'. poll_next S t i s as = PollReturn i' s' \<longrightarrow> hs s' = hs s)"

lemma handle_lawsD:
  assumes "handle_laws S hs"
  shows "sockets_add S k s = (h, s') \<Longrightarrow> h \<notin> hs s" "sockets_add S k s = (h, s') \<Longrightarrow> hs s' = insert h (hs s)"
    "hs (sockets_remove S h s) = hs s - {h}"
    "udp_send S h bs ep s = (b, s') \<Longrightarrow> hs s' = hs s" "udp_recv S h n s = (x, s') \<Longrightarrow> hs s' = hs s"
    "poll_next S t i s as = PollReturn i' s' \<Longrightarrow> hs s' = hs s"
proof -
  note laws = assms [unfolded handle_laws_def]
  show "sockets_add S k s = (h, s') \<Longrightarrow> h \<notin> hs s" "sockets_add S k s = (h, s') \<Longrightarrow> hs s' = insert h (hs s)"
    using laws [THEN conjunct1] by simp_all
  show "hs (sockets_remove S h s) = hs s - {h}" using laws by simp
  show "udp_send S h bs ep s = (b, s') \<Longrightarrow> hs s' = hs s"
    using laws [THEN conjunct2, THEN conjunct2, THEN conjunct1] by (metis snd_conv)
  show "udp_recv S h n s = (x, s') \<Longrightarrow> hs s' = hs s"
    using laws [THEN conjunct2, THEN conjunct2, THEN conjunct2, THEN conjunct1] by (metis snd_conv)
  show "poll_next S t i s as = PollReturn i' s' \<Longrightarrow> hs s' = hs s"
    using laws [THEN conjunct2, THEN conjunct2, THEN conjunct2, THEN conjunct2] by simp
qed

lemma received_slice_eq: "length bytes \<le> 512 \<Longrightarrow> received_slice bytes = Done bytes"
  by (simp add: received_slice_def)

section \<open>The loop\<close>

lemma run_poll_sockets:
  assumes "handle_laws (stack pf) hs" and "run_poll pf t n as net hw = Done (net', hw')"
  shows "hs (sockets net') = hs (sockets net)"
  using assms(2)
proof (induction n arbitrary: as net hw)
  case (Suc n)
  then show ?case
    using assms(1) by (auto simp: handle_laws_def outcome_simps split: poll_call.splits dest!: Suc.IH)
qed simp

lemma resolve_loop_sockets:
  assumes "handle_laws (stack pf) hs" and "resolve_loop pf h ticks net hw = Done (r, net', hw')"
  shows "hs (sockets net') = hs (sockets net)"
  using assms(2)
proof (induction ticks arbitrary: net hw)
  case (Cons tick ticks)
  note recv = handle_lawsD(5) [OF assms(1)]
  obtain net1 hw1 where p: "iface_poll pf (int (tick * 10)) net hw = Done (net1, hw1)"
    using Cons.prems by (auto simp: outcome_simps)
  then have "hs (sockets net1) = hs (sockets net)"
    using run_poll_sockets [OF assms(1)] by (simp add: iface_poll_def)
  then show ?case
    using Cons.prems p Cons.IH recv
    by (auto simp: outcome_simps split: if_splits option.splits prod.splits; fastforce)
qed simp

lemma resolve_loop_ok:
  assumes "card_follows pf base I" and "frames_within_mtu (stack pf)" and "recv_fits (stack pf)" and "net_ok I base net hw"
  shows "(\<exists>r net' hw'. resolve_loop pf h ticks net hw = Done (r, net', hw') \<and> net_ok I base net' hw' \<and>
      (case r of None \<Rightarrow> True | Some ip \<Rightarrow> length ip = 4)) \<or>
    (resolve_loop pf h ticks net hw = Panic Hang \<and> poll_stuck pf)"
  using assms(4)
proof (induction ticks arbitrary: net hw)
  case Nil
  then show ?case by simp
next
  case (Cons tick ticks)
  consider net1 hw1 where "iface_poll pf (int (tick * 10)) net hw = Done (net1, hw1)" "net_ok I base net1 hw1"
    | "iface_poll pf (int (tick * 10)) net hw = Panic Hang" "poll_stuck pf"
    using iface_poll_ok [OF assms(1,2) Cons.prems] by blast
  then show ?case
  proof cases
    case 1
    have ok: "net_ok I base (net1\<lparr>sockets := s\<rparr>) hw1" for s using 1(2) by (simp add: net_ok_def)
    obtain x s where rcv: "udp_recv (stack pf) h 512 (sockets net1) = (x, s)" by fastforce
    show ?thesis
    proof (cases x)
      case None
      then show ?thesis using 1 rcv Cons.IH [OF 1(2)] Cons.IH [OF ok] by simp
    next
      case (Some bytes)
      then have len: "length bytes \<le> 512" using assms(3) rcv unfolding recv_fits_def by blast
      then obtain res where "parse_dns_response bytes = Done res" "case res of None \<Rightarrow> True | Some ip \<Rightarrow> length ip = 4"
        using parse_dns_response_total [of bytes] by (auto simp: isize_max_def split: option.splits)
      then show ?thesis
        using 1 rcv Some ok Cons.IH [OF 1(2)] Cons.IH [OF ok] received_slice_eq [OF len] by simp
    qed
  qed simp
qed

declare resolve_loop.simps(2) [simp del]

section \<open>A concrete stack\<close>

lemma sample_recv_fits: "recv_fits sample_stack"
  by (auto simp: recv_fits_def sample_stack_def)

lemma sample_handle_laws: "handle_laws sample_stack (\<lambda>s. fst ` set s)"
proof -
  have "Suc (sum_list (map fst s)) \<notin> fst ` set s" for s :: "(nat \<times> u8 list) list"
  proof
    assume "Suc (sum_list (map fst s)) \<in> fst ` set s"
    then have "Suc (sum_list (map fst s)) \<in> set (map fst s)" by simp
    then show False using member_le_sum_list by fastforce
  qed
  then show ?thesis by (auto simp: handle_laws_def sample_stack_def Let_def split: if_splits)
qed

text \<open>Resolution never panics. Under the laws of the card and of the IP stack, resolving any name from any
  console state ends after at most 200 polls, whether or not there is a network and whatever datagrams
  arrive, unless one of these polls does not end; the network stack stays well-formed, and an address it returns has
  four bytes.\<close>

lemma resolve_ok:
  assumes "card_follows pf base I" and "frames_within_mtu (stack pf)" and "recv_fits (stack pf)"
    and "case guard of None \<Rightarrow> True | Some net \<Rightarrow> net_ok I base net hw"
  shows "(\<exists>r guard' hw' con'. resolve pf domain guard hw con = Done (r, guard', hw', con') \<and>
      (guard' = None \<longleftrightarrow> guard = None) \<and>
      (case guard' of None \<Rightarrow> True | Some net \<Rightarrow> net_ok I base net hw') \<and>
      (case r of None \<Rightarrow> True | Some ip \<Rightarrow> length ip = 4)) \<or>
    (resolve pf domain guard hw con = Panic Hang \<and> guard \<noteq> None \<and> poll_stuck pf)"
proof (cases guard)
  case None
  then show ?thesis by (simp add: resolve_def)
next
  case (Some net)
  have ok: "net_ok I base (net\<lparr>sockets := s\<rparr>) hw" for s using assms(4) Some by (simp add: net_ok_def)
  have upd: "net_ok I base (net\<lparr>sockets := s\<rparr>) hw = net_ok I base net hw" for s hw and net :: "('b, 'c) network_stack"
    by (simp add: net_ok_def)
  show ?thesis
  proof (cases "udp_bind (stack pf) LOCAL_PORT")
    case None
    then show ?thesis using Some assms(4) by (simp add: resolve_def)
  next
    case (Some socket)
    obtain handle s1 where add: "sockets_add (stack pf) socket (sockets net) = (handle, s1)" by fastforce
    obtain sent s2 where send: "udp_send (stack pf) handle (build_dns_query domain) (DNS_SERVER, DNS_PORT) s1 = (sent, s2)"
      by fastforce
    have "resolve pf domain guard hw con = (if \<not> sent then Done (None, Some (net\<lparr>sockets := s2\<rparr>), hw, con)
        else obind (resolve_loop pf handle [0..<200] (net\<lparr>sockets := s2\<rparr>) hw) (\<lambda>(r, net, hw).
          Done (r, Some (net\<lparr>sockets := sockets_remove (stack pf) handle (sockets net)\<rparr>), hw, resolve_report domain r con)))"
      using \<open>guard = Some net\<close> Some add send by (simp add: resolve_def)
    with resolve_loop_ok [OF assms(1-3) ok [of s2], of handle "[0..<200]"] show ?thesis
      using \<open>guard = Some net\<close> ok [of s2] by (cases sent) (auto simp: upd)
  qed
qed

section \<open>Properties\<close>

text \<open>C38: Sockets are accounted for, except on one path. When the resolver returns, the socket set
  has the handles it had before, except when the stack refuses the datagram: then the early return
  (\<^verbatim>\<open>send_slice(..).ok()?\<close>) skips the removal, and the new socket stays in the set for good.\<close>

theorem resolve_socket_accounting:
  assumes "handle_laws (stack pf) hs" and "resolve pf domain (Some net) hw con = Done (r, guard', hw', con')"
  shows "\<exists>net'. guard' = Some net' \<and>
    (case udp_bind (stack pf) LOCAL_PORT of
       None \<Rightarrow> hs (sockets net') = hs (sockets net)
     | Some socket \<Rightarrow>
         let (handle, s) = sockets_add (stack pf) socket (sockets net) in
         if fst (udp_send (stack pf) handle (build_dns_query domain) (DNS_SERVER, DNS_PORT) s)
         then hs (sockets net') = hs (sockets net)
         else hs (sockets net') = insert handle (hs (sockets net)) \<and> handle \<notin> hs (sockets net))"
proof (cases "udp_bind (stack pf) LOCAL_PORT")
  case None
  then show ?thesis using assms(2) by (auto simp: resolve_def)
next
  case (Some socket)
  obtain handle s1 where add: "sockets_add (stack pf) socket (sockets net) = (handle, s1)" by fastforce
  obtain sent s2 where send: "udp_send (stack pf) handle (build_dns_query domain) (DNS_SERVER, DNS_PORT) s1 = (sent, s2)"
    by fastforce
  note hs = handle_lawsD(1,2) [OF assms(1) add] handle_lawsD(4) [OF assms(1) send] handle_lawsD(3) [OF assms(1)]
  show ?thesis
  proof (cases sent)
    case False
    then show ?thesis using assms(2) Some add send hs by (auto simp: resolve_def)
  next
    case True
    then obtain net1 where loop: "resolve_loop pf handle [0..<200] (net\<lparr>sockets := s2\<rparr>) hw = Done (r, net1, hw')"
      and g: "guard' = Some (net1\<lparr>sockets := sockets_remove (stack pf) handle (sockets net1)\<rparr>)"
      using assms(2) Some add send by (auto simp: resolve_def outcome_simps simp del: resolve_loop.simps)
    have "hs (sockets net1) = hs s2" using resolve_loop_sockets [OF assms(1) loop] by simp
    then show ?thesis using Some add send True hs g by simp
  qed
qed

theorem resolve_socket_accounting_witness:
  "\<exists>net' hw' con'. resolve sample_platform (replicate 2000 CHR ''a'') (Some sample_net) () blank_console
     = Done (None, Some net', hw', con') \<and> fst ` set (sockets net') = {1}"
proof -
  let ?d = "replicate 2000 CHR ''a''"
  have st: "stack sample_platform = sample_stack" by (simp add: sample_platform_def)
  have laws: "handle_laws (stack sample_platform) (\<lambda>s. fst ` set s)" using sample_handle_laws by (simp add: st)
  have "split_on CHR ''.'' ?d = [?d]" by (rule split_on_single) simp
  then have "1024 < length (build_dns_query ?d)"
    by (simp add: build_dns_query_def encode_label_def as_bytes_def query_header_def)
  then have send: "\<not> fst (udp_send sample_stack h (build_dns_query ?d) ep s)" for h ep s
    by (simp add: sample_stack_def)
  have bind: "udp_bind sample_stack LOCAL_PORT = Some (replicate 13 0)" by (simp add: sample_stack_def)
  have add: "sockets_add sample_stack k (sockets sample_net) = (1, [(1, k)])" for k
    by (simp add: sample_stack_def sample_net_def)
  obtain guard' hw' con' where run: "resolve sample_platform ?d (Some sample_net) () blank_console = Done (None, guard', hw', con')"
    using send bind by (auto simp: resolve_def st case_prod_unfold Let_def)
  then show ?thesis
    using resolve_socket_accounting [OF laws run] send bind add by (auto simp: st sample_net_def)
qed

end
