(* ===== verification/Host.thy ===== *)
theory Host
  imports Task Ipc Vfs Clock Resolver
begin

text \<open>
  What a host function of \<^verbatim>\<open>src/wasm.rs\<close> works on. The kernel's global state is one record: the
  contents of the locks of \<^verbatim>\<open>capability.rs\<close>, \<^verbatim>\<open>task.rs\<close>, \<^verbatim>\<open>ipc.rs\<close>, \<^verbatim>\<open>vfs.rs\<close> and \<^verbatim>\<open>net.rs\<close>, the two
  output channels, the uptime counter and the hardware. A host function runs for one agent, whose
  process identifier is the store's data (\<^verbatim>\<open>WasmState\<close>), and sees the linear memory the module
  exports. It ends in a value or in a trap, keeping the state changes it has made, or it panics.

  The interpreter wasmi is a library: the linear memory is a parameter with its two operations.
  So is the global allocator: \<open>alloc_ok\<close> says which requests for a buffer of guest-chosen length it
  can serve. Allocations whose size the guest does not name are not modelled as failing.
\<close>

section \<open>State\<close>

record ('i, 's, 'h) kernel =
  k_caps :: cap_state
  k_registry :: registry
  k_ipc :: ipc_state
  k_vfs :: vfs
  k_net :: "('i, 's) network_stack option"
  k_console :: console
  k_uptime :: u64
  k_hw :: 'h

record 'm wasm_memory =
  mem_read :: "'m \<Rightarrow> usize \<Rightarrow> usize \<Rightarrow> u8 list option"
  mem_write :: "'m \<Rightarrow> usize \<Rightarrow> u8 list \<Rightarrow> 'm option"

record ('h, 'i, 's, 'k, 'm) host_env =
  platform_of :: "('h, 'i, 's, 'k) platform"
  wmem :: "'m wasm_memory"
  alloc_ok :: "usize \<Rightarrow> bool"

record ('m, 'i, 's, 'h) session =
  st_pid :: u64
  st_mem :: "'m option"  \<comment> \<open>the export named memory, if there is one\<close>
  st_k :: "('i, 's, 'h) kernel"

datatype trap = HostError string

section \<open>Computations of the host\<close>

type_synonym ('st, 'a) host = "'st \<Rightarrow> ((trap + 'a) \<times> 'st) outcome"

definition hreturn :: "'a \<Rightarrow> ('st, 'a) host" where
  "hreturn x st = Done (Inr x, st)"

definition htrap :: "string \<Rightarrow> ('st, 'a) host" where
  "htrap msg st = Done (Inl (HostError msg), st)"

definition hbind :: "('st, 'a) host \<Rightarrow> ('a \<Rightarrow> ('st, 'b) host) \<Rightarrow> ('st, 'b) host" where
  "hbind m f st = obind (m st) (\<lambda>(r, st'). case r of Inl t \<Rightarrow> Done (Inl t, st') | Inr x \<Rightarrow> f x st')"

definition hget :: "('st \<Rightarrow> 'a) \<Rightarrow> ('st, 'a) host" where
  "hget f st = Done (Inr (f st), st)"

definition hput_mem :: "'m \<Rightarrow> (('m, 'i, 's, 'h) session, unit) host" where
  "hput_mem m st = Done (Inr (), st\<lparr>st_mem := Some m\<rparr>)"

text \<open>A check that only reads the state, and an operation of the kernel.\<close>

definition hcall :: "('st \<Rightarrow> 'a outcome) \<Rightarrow> ('st, 'a) host" where
  "hcall F st = map_outcome (\<lambda>x. (Inr x, st)) (F st)"

definition hkernel :: "(('i, 's, 'h) kernel \<Rightarrow> ('a \<times> ('i, 's, 'h) kernel) outcome) \<Rightarrow> (('m, 'i, 's, 'h) session, 'a) host" where
  "hkernel F st = map_outcome (\<lambda>(x, k). (Inr x, st\<lparr>st_k := k\<rparr>)) (F (st_k st))"

section \<open>Weakest preconditions\<close>

text \<open>
  \<open>sat b m Q st\<close>: run in state \<open>st\<close>, the computation ends with a result and a state that satisfy
  \<open>Q\<close>, or in a panic that \<open>b\<close> accepts. So \<open>sat no_panic\<close> is total correctness and \<open>sat any_panic\<close> partial
  correctness; the rules are the same equations for all, collected in \<open>sat_simps\<close>.
\<close>

abbreviation any_panic :: "panic \<Rightarrow> bool" where "any_panic \<equiv> \<lambda>_. True"
abbreviation no_panic :: "panic \<Rightarrow> bool" where "no_panic \<equiv> \<lambda>_. False"

definition sat :: "(panic \<Rightarrow> bool) \<Rightarrow> ('st, 'a) host \<Rightarrow> (trap + 'a \<Rightarrow> 'st \<Rightarrow> bool) \<Rightarrow> 'st \<Rightarrow> bool" where
  "sat b m Q st = (case m st of Done (r, st') \<Rightarrow> Q r st' | Panic p \<Rightarrow> b p)"

named_theorems sat_simps \<open>weakest preconditions of host computations\<close>

lemma sat_hreturn [sat_simps]: "sat b (hreturn x) Q st = Q (Inr x) st"
  by (simp add: sat_def hreturn_def)

lemma sat_htrap [sat_simps]: "sat b (htrap msg) Q st = Q (Inl (HostError msg)) st"
  by (simp add: sat_def htrap_def)

lemma sat_hget [sat_simps]: "sat b (hget g) Q st = Q (Inr (g st)) st"
  by (simp add: sat_def hget_def)

lemma sat_hput_mem [sat_simps]: "sat b (hput_mem m) Q st = Q (Inr ()) (st\<lparr>st_mem := Some m\<rparr>)"
  by (simp add: sat_def hput_mem_def)

lemma sat_hcall [sat_simps]: "sat b (hcall F) Q st = (case F st of Done x \<Rightarrow> Q (Inr x) st | Panic p \<Rightarrow> b p)"
  by (cases "F st") (simp_all add: sat_def hcall_def)

lemma sat_hkernel [sat_simps]:
  "sat b (hkernel F) Q st = (case F (st_k st) of Done (x, k) \<Rightarrow> Q (Inr x) (st\<lparr>st_k := k\<rparr>) | Panic p \<Rightarrow> b p)"
  by (cases "F (st_k st)") (auto simp: sat_def hkernel_def)

lemma sat_hbind [sat_simps]:
  "sat b (hbind m f) Q st =
     sat b m (\<lambda>r st'. case r of Inl t \<Rightarrow> Q (Inl t) st' | Inr x \<Rightarrow> sat b (f x) Q st') st"
  by (cases "m st") (auto simp: sat_def hbind_def split: sum.splits)

lemma sat_mono: "sat b m Q st \<Longrightarrow> (\<And>r st'. Q r st' \<Longrightarrow> Q' r st') \<Longrightarrow> sat b m Q' st"
  by (cases "m st") (auto simp: sat_def)

lemma sat_partialD: "sat any_panic m Q st \<Longrightarrow> m st = Done (r, st') \<Longrightarrow> Q r st'"
  by (simp add: sat_def)

lemma sat_totalD: "sat no_panic m Q st \<Longrightarrow> \<exists>r st'. m st = Done (r, st') \<and> Q r st'"
  by (cases "m st") (auto simp: sat_def)

text \<open>
  An invariant is kept by a computation whenever it ends, and a panic is one that \<open>b\<close> accepts.
  The rules follow the structure of the computation, so a host function is one \<open>intro\<close>.
\<close>

definition maintains :: "(panic \<Rightarrow> bool) \<Rightarrow> ('st \<Rightarrow> bool) \<Rightarrow> ('st, 'a) host \<Rightarrow> bool" where
  "maintains b P m \<longleftrightarrow> (\<forall>st. P st \<longrightarrow> sat b m (\<lambda>_. P) st)"

named_theorems maintains_intros \<open>rules for invariants of host computations\<close>

lemma maintains_basic [maintains_intros]:
  "maintains b P (hreturn x)" "maintains b P (htrap msg)" "maintains b P (hget g)"
  by (simp_all add: maintains_def sat_simps)

lemma maintains_hcall:
  assumes "\<And>st. P st \<Longrightarrow> case F st of Done x \<Rightarrow> True | Panic p \<Rightarrow> b p"
  shows "maintains b P (hcall F)"
  unfolding maintains_def sat_hcall
proof (intro allI impI)
  fix st assume "P st"
  with assms [of st] show "case F st of Done x \<Rightarrow> P st | Panic p \<Rightarrow> b p" by (cases "F st") auto
qed

lemma maintains_hkernel:
  "(\<And>st. P st \<Longrightarrow> case F (st_k st) of Done (x, k) \<Rightarrow> P (st\<lparr>st_k := k\<rparr>) | Panic p \<Rightarrow> b p) \<Longrightarrow> maintains b P (hkernel F)"
  by (simp add: maintains_def sat_simps)

lemma maintains_hbind [maintains_intros]:
  assumes "maintains b P m" and "\<And>x. maintains b P (f x)"
  shows "maintains b P (hbind m f)"
  unfolding maintains_def sat_hbind
proof (intro allI impI)
  fix st assume "P st"
  then have "sat b m (\<lambda>_. P) st" using assms(1) by (simp add: maintains_def)
  then show "sat b m (\<lambda>r st'. case r of Inl t \<Rightarrow> P st' | Inr x \<Rightarrow> sat b (f x) (\<lambda>_. P) st') st"
    by (rule sat_mono) (use assms(2) in \<open>auto simp: maintains_def split: sum.split\<close>)
qed

lemma sat_hbind_maintains:
  assumes "maintains b P m" and "P st" and "\<And>x st'. P st' \<Longrightarrow> sat b (f x) Q st'" and "\<And>t st'. P st' \<Longrightarrow> Q (Inl t) st'"
  shows "sat b (hbind m f) Q st"
  unfolding sat_hbind
proof (rule sat_mono)
  show "sat b m (\<lambda>_. P) st" using assms(1,2) by (simp add: maintains_def)
qed (use assms(3,4) in \<open>auto split: sum.split\<close>)

lemma maintains_if [maintains_intros]:
  "maintains b P m \<Longrightarrow> maintains b P m' \<Longrightarrow> maintains b P (if c then m else m')"
  by simp

lemma maintains_option [maintains_intros]:
  "maintains b P m \<Longrightarrow> (\<And>x. maintains b P (f x)) \<Longrightarrow> maintains b P (case v of None \<Rightarrow> m | Some x \<Rightarrow> f x)"
  by (cases v) simp_all

lemma maintains_sum [maintains_intros]:
  "(\<And>x. maintains b P (f x)) \<Longrightarrow> (\<And>y. maintains b P (g y)) \<Longrightarrow> maintains b P (case s of Inl x \<Rightarrow> f x | Inr y \<Rightarrow> g y)"
  by (cases s) simp_all

lemma maintainsD: "maintains any_panic P m \<Longrightarrow> P st \<Longrightarrow> m st = Done (r, st') \<Longrightarrow> P st'"
  unfolding maintains_def by (blast dest: sat_partialD)

lemma maintains_totalD: "maintains no_panic P m \<Longrightarrow> P st \<Longrightarrow> \<exists>r st'. m st = Done (r, st') \<and> P st'"
  unfolding maintains_def by (blast dest: sat_totalD)

section \<open>Access to the guest and to the console\<close>

text \<open>\<^verbatim>\<open>get_memory\<close>: the export named \<^verbatim>\<open>memory\<close>, a trap if the module has none.\<close>

definition get_memory :: "(('m, 'i, 's, 'h) session, unit) host" where
  "get_memory = hbind (hget st_mem) (\<lambda>m. case m of
     None \<Rightarrow> htrap ''Failed to find 'memory' export'' | Some _ \<Rightarrow> hreturn ())"

text \<open>\<^verbatim>\<open>alloc::vec![0u8; n]\<close>\<close>

definition alloc_zeroed :: "('h, 'i, 's, 'k, 'm) host_env \<Rightarrow> usize \<Rightarrow> (('m, 'i, 's, 'h) session, unit) host" where
  "alloc_zeroed E n = hcall (\<lambda>_. if n = 0 \<or> alloc_ok E n then Done () else Panic AllocError)"

text \<open>\<^verbatim>\<open>memory.read(&caller, ptr as usize, &mut buf)\<close>, an error turned into a trap.\<close>

definition guest_read ::
    "('h, 'i, 's, 'k, 'm) host_env \<Rightarrow> u32 \<Rightarrow> usize \<Rightarrow> string \<Rightarrow> (('m, 'i, 's, 'h) session, u8 list) host" where
  "guest_read E ptr n err = hbind (hget st_mem) (\<lambda>m.
     case Option.bind m (\<lambda>m. mem_read (wmem E) m (unat ptr) n) of
       None \<Rightarrow> htrap err | Some bytes \<Rightarrow> hreturn bytes)"

definition guest_buffer ::
    "('h, 'i, 's, 'k, 'm) host_env \<Rightarrow> u32 \<Rightarrow> u32 \<Rightarrow> string \<Rightarrow> (('m, 'i, 's, 'h) session, u8 list) host" where
  "guest_buffer E ptr len err = hbind (alloc_zeroed E (unat len)) (\<lambda>_. guest_read E ptr (unat len) err)"

definition guest_write ::
    "('h, 'i, 's, 'k, 'm) host_env \<Rightarrow> u32 \<Rightarrow> u8 list \<Rightarrow> string \<Rightarrow> (('m, 'i, 's, 'h) session, unit) host" where
  "guest_write E ptr bytes err = hbind (hget st_mem) (\<lambda>m.
     case Option.bind m (\<lambda>m. mem_write (wmem E) m (unat ptr) bytes) of
       None \<Rightarrow> htrap err | Some m' \<Rightarrow> hput_mem m')"

definition guest_str :: "u8 list \<Rightarrow> string \<Rightarrow> (('m, 'i, 's, 'h) session, string) host" where
  "guest_str bytes err = (case from_utf8 bytes of None \<Rightarrow> htrap err | Some s \<Rightarrow> hreturn s)"

definition k_serial :: "string \<Rightarrow> ('i, 's, 'h) kernel \<Rightarrow> ('i, 's, 'h) kernel" where
  "k_serial line k = k\<lparr>k_console := serial_println line (k_console k)\<rparr>"

definition host_serial :: "string \<Rightarrow> (('m, 'i, 's, 'h) session, unit) host" where
  "host_serial line = hkernel (\<lambda>k. Done ((), k_serial line k))"

definition host_println :: "string \<Rightarrow> (('m, 'i, 's, 'h) session, unit) host" where
  "host_println line = hkernel (\<lambda>k. map_outcome (\<lambda>con. ((), k\<lparr>k_console := con\<rparr>)) (println line (k_console k)))"

text \<open>The capabilities of the calling agent, as identifiers and as what they stand for.\<close>

definition caller_caps :: "('m, 'i, 's, 'h) session \<Rightarrow> capability_id list" where
  "caller_caps st = agent_capabilities (k_registry (st_k st)) (AgentId (st_pid st))"

definition held :: "('m, 'i, 's, 'h) session \<Rightarrow> capability set" where
  "held st = set (resolved (k_caps (st_k st)) (caller_caps st))"

section \<open>Weakest preconditions of the primitives\<close>

lemma sat_get_memory [sat_simps]:
  "sat b get_memory Q st =
     (case st_mem st of None \<Rightarrow> Q (Inl (HostError ''Failed to find 'memory' export'')) st | Some _ \<Rightarrow> Q (Inr ()) st)"
  by (simp add: get_memory_def sat_simps split: option.split)

lemma sat_alloc_zeroed [sat_simps]:
  "sat b (alloc_zeroed E n) Q st = (if n = 0 \<or> alloc_ok E n then Q (Inr ()) st else b AllocError)"
  by (simp add: alloc_zeroed_def sat_simps)

lemma sat_guest_read [sat_simps]:
  "sat b (guest_read E ptr n err) Q st =
     (case Option.bind (st_mem st) (\<lambda>m. mem_read (wmem E) m (unat ptr) n) of
        None \<Rightarrow> Q (Inl (HostError err)) st | Some bytes \<Rightarrow> Q (Inr bytes) st)"
  by (simp add: guest_read_def sat_simps split: option.split)

lemma sat_guest_write [sat_simps]:
  "sat b (guest_write E ptr bytes err) Q st =
     (case Option.bind (st_mem st) (\<lambda>m. mem_write (wmem E) m (unat ptr) bytes) of
        None \<Rightarrow> Q (Inl (HostError err)) st | Some m' \<Rightarrow> Q (Inr ()) (st\<lparr>st_mem := Some m'\<rparr>))"
  by (simp add: guest_write_def sat_simps split: option.split)

lemma sat_guest_buffer [sat_simps]:
  "sat b (guest_buffer E ptr len err) Q st =
     (if unat len = 0 \<or> alloc_ok E (unat len) then
        (case Option.bind (st_mem st) (\<lambda>m. mem_read (wmem E) m (unat ptr) (unat len)) of
           None \<Rightarrow> Q (Inl (HostError err)) st | Some bytes \<Rightarrow> Q (Inr bytes) st)
      else b AllocError)"
  by (simp add: guest_buffer_def sat_simps split: option.split)

lemma sat_guest_str [sat_simps]:
  "sat b (guest_str bytes err) Q st =
     (case from_utf8 bytes of None \<Rightarrow> Q (Inl (HostError err)) st | Some s \<Rightarrow> Q (Inr s) st)"
  by (simp add: guest_str_def sat_simps split: option.split)

lemma sat_host_serial [sat_simps]:
  "sat b (host_serial line) Q st = Q (Inr ()) (st\<lparr>st_k := k_serial line (st_k st)\<rparr>)"
  by (simp add: host_serial_def sat_simps)

lemma sat_host_println [sat_simps]:
  "sat b (host_println line) Q st =
     (case println line (k_console (st_k st)) of
        Done con \<Rightarrow> Q (Inr ()) (st\<lparr>st_k := (st_k st)\<lparr>k_console := con\<rparr>\<rparr>) | Panic p \<Rightarrow> b p)"
  by (cases "println line (k_console (st_k st))") (simp_all add: host_println_def sat_simps)

lemma k_serial_fields [simp]:
  "k_caps (k_serial line k) = k_caps k" "k_registry (k_serial line k) = k_registry k"
  "k_ipc (k_serial line k) = k_ipc k" "k_vfs (k_serial line k) = k_vfs k" "k_net (k_serial line k) = k_net k"
  "k_uptime (k_serial line k) = k_uptime k" "k_hw (k_serial line k) = k_hw k"
  "vga (k_console (k_serial line k)) = vga (k_console k)"
  "console_ok (k_console (k_serial line k)) = console_ok (k_console k)"
  by (simp_all add: k_serial_def)

end
