(* ===== verification/Wasm_Host.thy ===== *)
theory Wasm_Host
  imports Host
begin

text \<open>
  The host functions a WebAssembly agent can import (\<^verbatim>\<open>src/wasm.rs\<close>), one definition per closure, in
  the order the code defines them: the same reads of guest memory, checks, log lines, state changes
  and return codes.
\<close>

definition dec :: "'n::len word \<Rightarrow> string" where
  "dec w = fmt_dec (unat w)"

section \<open>Console and messages\<close>

definition debug_log ::
    "('h, 'i, 's, 'k, 'm) host_env \<Rightarrow> u32 \<Rightarrow> u32 \<Rightarrow> (('m, 'i, 's, 'h) session, unit) host" where
  "debug_log E ptr len =
     hbind get_memory (\<lambda>_.
     hbind (guest_buffer E ptr len ''Memory read failed'') (\<lambda>buf.
     case from_utf8 buf of
       None \<Rightarrow> hreturn ()
     | Some s \<Rightarrow>
         hbind (hget st_pid) (\<lambda>pid.
         let line = ''[Wasm Agent '' @ dec pid @ ''] '' @ s in
         hbind (host_serial line) (\<lambda>_. host_println line))))"

definition k_send ::
    "process_id \<Rightarrow> process_id \<Rightarrow> u8 list \<Rightarrow> capability_id list \<Rightarrow> ('i, 's, 'h) kernel \<Rightarrow> ((string + unit) \<times> ('i, 's, 'h) kernel) outcome" where
  "k_send from recipient dat delegated k =
     (let (r, eps) = send_message (k_caps k) from recipient dat delegated (k_ipc k) in Done (r, k\<lparr>k_ipc := eps\<rparr>))"

definition send_ipc ::
    "('h, 'i, 's, 'k, 'm) host_env \<Rightarrow> u64 \<Rightarrow> u32 \<Rightarrow> u32 \<Rightarrow> (('m, 'i, 's, 'h) session, u32) host" where
  "send_ipc E target_pid ptr len =
     hbind get_memory (\<lambda>_.
     hbind (guest_buffer E ptr len ''Memory read failed'') (\<lambda>buf.
     hbind (hget st_pid) (\<lambda>pid.
     hbind (hcall (\<lambda>st. can_send_to (k_caps (st_k st)) (caller_caps st) target_pid)) (\<lambda>allowed.
     if \<not> allowed then
       hbind (host_serial (''[SECURITY] Agent '' @ dec pid @ '' denied send to Agent '' @ dec target_pid)) (\<lambda>_. hreturn 2)
     else
       hbind (hkernel (k_send (ProcessId pid) (ProcessId target_pid) buf [])) (\<lambda>r.
       case r of Inr _ \<Rightarrow> hreturn 0 | Inl _ \<Rightarrow> hreturn 1)))))"

section \<open>Network\<close>

text \<open>The part of \<^verbatim>\<open>tcp_request\<close> under the lock: connect, add, poll once, remove. True if a SYN went out.\<close>

definition tcp_syn ::
    "('h, 'i, 's, 'k) platform \<Rightarrow> u8 list \<Rightarrow> u16 \<Rightarrow> ('i, 's, 'h) kernel \<Rightarrow> (bool \<times> ('i, 's, 'h) kernel) outcome" where
  "tcp_syn pf ip port k =
     (case k_net k of
        None \<Rightarrow> Done (False, k)
      | Some net \<Rightarrow>
          (case tcp_connect (stack pf) (iface net) (ip, port) 49152 of
             (None, i) \<Rightarrow> Done (False, k\<lparr>k_net := Some (net\<lparr>iface := i\<rparr>)\<rparr>)
           | (Some socket, i) \<Rightarrow>
               let (handle, s) = sockets_add (stack pf) socket (sockets net) in
               obind (iface_poll pf 1 (net\<lparr>iface := i, sockets := s\<rparr>) (k_hw k)) (\<lambda>(net, hw).
               Done (True, k\<lparr>k_net := Some (net\<lparr>sockets := sockets_remove (stack pf) handle (sockets net)\<rparr>),
                             k_hw := hw,
                             k_console := serial_println ''  -> TCP SYN packet emitted to hardware DMA ring!'' (k_console k)\<rparr>))))"

definition tcp_request ::
    "('h, 'i, 's, 'k, 'm) host_env \<Rightarrow> u32 \<Rightarrow> u32 \<Rightarrow> u32 \<Rightarrow> u32 \<Rightarrow> (('m, 'i, 's, 'h) session, u32) host" where
  "tcp_request E ip_ptr port ptr len =
     hbind get_memory (\<lambda>_.
     hbind (hget st_pid) (\<lambda>pid.
     hbind (hcall (\<lambda>st. can_access_network (k_caps (st_k st)) (caller_caps st))) (\<lambda>allowed.
     if \<not> allowed then
       hbind (host_serial (''[SECURITY] Agent '' @ dec pid @ '' denied network access'')) (\<lambda>_. hreturn 2)
     else
       hbind (guest_read E ip_ptr 4 ''IP read failed'') (\<lambda>ip_buf.
       hbind (guest_buffer E ptr len ''Payload read failed'') (\<lambda>_.
       hbind (host_serial (''[NET] Agent '' @ dec pid @ '' requesting TCP to '' @ fmt_ip ip_buf @ '':'' @ dec port @
                           '' (Payload: '' @ dec len @ '' bytes)'')) (\<lambda>_.
       hbind (hkernel (tcp_syn (platform_of E) ip_buf (ucast port))) (\<lambda>sent.
       hreturn (if sent then 0 else 1))))))))"

definition kernel_resolve ::
    "('h, 'i, 's, 'k) platform \<Rightarrow> string \<Rightarrow> ('i, 's, 'h) kernel \<Rightarrow> (u8 list option \<times> ('i, 's, 'h) kernel) outcome" where
  "kernel_resolve pf domain k =
     map_outcome (\<lambda>(r, net, hw, con). (r, k\<lparr>k_net := net, k_hw := hw, k_console := con\<rparr>))
       (resolve pf domain (k_net k) (k_hw k) (k_console k))"

definition resolve_dns ::
    "('h, 'i, 's, 'k, 'm) host_env \<Rightarrow> u32 \<Rightarrow> u32 \<Rightarrow> u32 \<Rightarrow> (('m, 'i, 's, 'h) session, u32) host" where
  "resolve_dns E name_ptr name_len out_ip_ptr =
     hbind get_memory (\<lambda>_.
     hbind (hget st_pid) (\<lambda>pid.
     hbind (hcall (\<lambda>st. can_access_network (k_caps (st_k st)) (caller_caps st))) (\<lambda>allowed.
     if \<not> allowed then
       hbind (host_serial (''[SECURITY] Agent '' @ dec pid @ '' denied DNS access'')) (\<lambda>_. hreturn 2)
     else
       hbind (guest_buffer E name_ptr name_len ''Name read failed'') (\<lambda>name_buf.
       hbind (guest_str name_buf ''Invalid UTF-8 domain'') (\<lambda>domain.
       hbind (host_serial (''[DNS] Agent '' @ dec pid @ '' resolving: '' @ domain)) (\<lambda>_.
       hbind (hkernel (kernel_resolve (platform_of E) domain)) (\<lambda>r.
       case r of
         Some ip \<Rightarrow> hbind (guest_write E out_ip_ptr ip ''IP write failed'') (\<lambda>_. hreturn 0)
       | None \<Rightarrow> hreturn 1)))))))"

section \<open>Files\<close>

definition file_read ::
    "('h, 'i, 's, 'k, 'm) host_env \<Rightarrow> u32 \<Rightarrow> u32 \<Rightarrow> u32 \<Rightarrow> u32 \<Rightarrow> (('m, 'i, 's, 'h) session, u32) host" where
  "file_read E path_ptr path_len out_ptr out_len_ptr =
     hbind get_memory (\<lambda>_.
     hbind (hget st_pid) (\<lambda>pid.
     hbind (hget caller_caps) (\<lambda>caps.
     hbind (guest_buffer E path_ptr path_len ''Path read failed'') (\<lambda>path_buf.
     hbind (guest_str path_buf ''Invalid path'') (\<lambda>path.
     hbind (hcall (\<lambda>st. can_read_file (k_caps (st_k st)) caps path)) (\<lambda>allowed.
     if \<not> allowed then
       hbind (host_serial (''[SECURITY] Agent '' @ dec pid @ '' denied file read: '' @ path)) (\<lambda>_. hreturn 2)
     else
       hbind (hget (\<lambda>st. open_file (k_vfs (st_k st)) path)) (\<lambda>found.
       case found of
         Some dat \<Rightarrow>
           hbind (guest_write E out_ptr dat ''Data write failed'') (\<lambda>_.
           hbind (guest_write E out_len_ptr (u32_to_le_bytes (of_nat (length dat))) ''Len write failed'') (\<lambda>_.
           hreturn 0))
       | None \<Rightarrow> hreturn 3)))))))"

definition k_write_file :: "string \<Rightarrow> u8 list \<Rightarrow> u64 \<Rightarrow> ('i, 's, 'h) kernel \<Rightarrow> (bool \<times> ('i, 's, 'h) kernel) outcome" where
  "k_write_file path dat owner k =
     (let (written, fs) = write_file path dat owner (k_vfs k) in Done (written, k\<lparr>k_vfs := fs\<rparr>))"

definition file_write ::
    "('h, 'i, 's, 'k, 'm) host_env \<Rightarrow> u32 \<Rightarrow> u32 \<Rightarrow> u32 \<Rightarrow> u32 \<Rightarrow> (('m, 'i, 's, 'h) session, u32) host" where
  "file_write E path_ptr path_len data_ptr data_len =
     hbind get_memory (\<lambda>_.
     hbind (hget st_pid) (\<lambda>pid.
     hbind (hget caller_caps) (\<lambda>caps.
     hbind (guest_buffer E path_ptr path_len ''Path read failed'') (\<lambda>path_buf.
     hbind (guest_str path_buf ''Invalid path'') (\<lambda>path.
     hbind (hcall (\<lambda>st. can_write_file (k_caps (st_k st)) caps path)) (\<lambda>allowed.
     if \<not> allowed then
       hbind (host_serial (''[SECURITY] Agent '' @ dec pid @ '' denied file write: '' @ path)) (\<lambda>_. hreturn 2)
     else
       hbind (guest_buffer E data_ptr data_len ''Data read failed'') (\<lambda>data_buf.
       hbind (hkernel (k_write_file path data_buf pid)) (\<lambda>written.
       if written then
         hbind (host_serial (''[VFS] Agent '' @ dec pid @ '' wrote '' @ dec data_len @ '' bytes to '' @ path)) (\<lambda>_. hreturn 0)
       else hreturn 1))))))))"

definition file_list ::
    "('h, 'i, 's, 'k, 'm) host_env \<Rightarrow> u32 \<Rightarrow> u32 \<Rightarrow> u32 \<Rightarrow> u32 \<Rightarrow> (('m, 'i, 's, 'h) session, u32) host" where
  "file_list E prefix_ptr prefix_len out_ptr out_len_ptr =
     hbind get_memory (\<lambda>_.
     hbind (hget st_pid) (\<lambda>pid.
     hbind (hget caller_caps) (\<lambda>caps.
     hbind (guest_buffer E prefix_ptr prefix_len ''Prefix read failed'') (\<lambda>prefix_buf.
     hbind (guest_str prefix_buf ''Invalid prefix'') (\<lambda>prefix.
     hbind (hcall (\<lambda>st. can_read_file (k_caps (st_k st)) caps prefix)) (\<lambda>allowed.
     if \<not> allowed then
       hbind (host_serial (''[SECURITY] Agent '' @ dec pid @ '' denied file list: '' @ prefix)) (\<lambda>_. hreturn 2)
     else
       hbind (hget (\<lambda>st. as_bytes (join newline (list_files_prefix (k_vfs (st_k st)) prefix)))) (\<lambda>listing_bytes.
       hbind (guest_write E out_ptr listing_bytes ''List write failed'') (\<lambda>_.
       hbind (guest_write E out_len_ptr (u32_to_le_bytes (of_nat (length listing_bytes))) ''Len write failed'') (\<lambda>_.
       hreturn 0)))))))))"

section \<open>Time\<close>

definition k_time :: "('h, 'i, 's, 'k) platform \<Rightarrow> ('i, 's, 'h) kernel \<Rightarrow> (u64 \<times> ('i, 's, 'h) kernel) outcome" where
  "k_time pf k = map_outcome (\<lambda>(t, hw). (of_nat t, k\<lparr>k_hw := hw\<rparr>)) (unix_timestamp (ports pf) (k_hw k))"

definition get_time :: "('h, 'i, 's, 'k, 'm) host_env \<Rightarrow> (('m, 'i, 's, 'h) session, u64) host" where
  "get_time E = hkernel (k_time (platform_of E))"

definition get_uptime_ms :: "(('m, 'i, 's, 'h) session, u64) host" where
  "get_uptime_ms = hget (\<lambda>st. uptime_ms (k_uptime (st_k st)))"

section \<open>Escalation\<close>

text \<open>\<^verbatim>\<open>create_capability\<close> followed by \<^verbatim>\<open>grant_capability_to_agent\<close>.\<close>

definition k_grant :: "capability \<Rightarrow> u64 \<Rightarrow> ('i, 's, 'h) kernel \<Rightarrow> (unit \<times> ('i, 's, 'h) kernel) outcome" where
  "k_grant cap pid k =
     map_outcome (\<lambda>(i, cs). ((), k\<lparr>k_caps := cs, k_registry := grant_capability_to_agent (AgentId pid) i (k_registry k)\<rparr>))
       (create_capability cap (k_caps k))"

definition auto_grant :: "u64 \<Rightarrow> u32 \<Rightarrow> string \<Rightarrow> (('m, 'i, 's, 'h) session, u32) host" where
  "auto_grant pid cap_type detail =
     (if cap_type = 0 then
        hbind (hkernel (k_grant Network pid)) (\<lambda>_.
        hbind (host_serial (''[ESCALATION] Granted Network to Agent '' @ dec pid)) (\<lambda>_. hreturn 0))
      else if cap_type = 1 then
        let prefix = (if detail = [] then ''/agent/'' else detail) in
        hbind (hkernel (k_grant (FileSystem prefix True True) pid)) (\<lambda>_.
        hbind (host_serial (''[ESCALATION] Granted FileSystem('' @ [CHR 0x27] @ prefix @ [CHR 0x27] @ '') to Agent '' @ dec pid)) (\<lambda>_.
        hreturn 0))
      else if cap_type = 2 then
        hbind (hkernel (k_grant (Spawn 5) pid)) (\<lambda>_.
        hbind (host_serial (''[ESCALATION] Granted Spawn to Agent '' @ dec pid)) (\<lambda>_. hreturn 0))
      else
        hbind (host_serial (''[ESCALATION] Unknown capability type '' @ dec cap_type @ '' from Agent '' @ dec pid)) (\<lambda>_.
        hreturn 1))"

definition request_capability ::
    "('h, 'i, 's, 'k, 'm) host_env \<Rightarrow> u32 \<Rightarrow> u32 \<Rightarrow> u32 \<Rightarrow> (('m, 'i, 's, 'h) session, u32) host" where
  "request_capability E cap_type detail_ptr detail_len =
     hbind get_memory (\<lambda>_.
     hbind (hget st_pid) (\<lambda>pid.
     hbind (alloc_zeroed E (unat detail_len)) (\<lambda>_.
     hbind (if 0 < detail_len then guest_read E detail_ptr (unat detail_len) ''Detail read failed'' else hreturn []) (\<lambda>detail_buf.
     let detail_str = unwrap_or (from_utf8 detail_buf) [] in
     hbind (host_serial (''[ESCALATION] Agent '' @ dec pid @ '' requests capability type='' @ dec cap_type @
                         '' detail='' @ [CHR 0x27] @ detail_str @ [CHR 0x27])) (\<lambda>_.
     hbind (hkernel (k_send (ProcessId pid) KERNEL_SUPERVISOR_PID
              (as_bytes (''CAP_REQUEST:'' @ dec pid @ '':'' @ dec cap_type @ '':'' @ detail_str)) [])) (\<lambda>_.
     auto_grant pid cap_type detail_str))))))"

section \<open>The import table\<close>

text \<open>One constructor per function \<^verbatim>\<open>execute_module\<close> defines under \<^verbatim>\<open>env\<close>, and the results they return.\<close>

datatype host_call =
    DebugLog u32 u32
  | SendIpc u64 u32 u32
  | TcpRequest u32 u32 u32 u32
  | ResolveDns u32 u32 u32
  | FileRead u32 u32 u32 u32
  | FileWrite u32 u32 u32 u32
  | FileList u32 u32 u32 u32
  | GetTime
  | GetUptimeMs
  | RequestCapability u32 u32 u32

datatype host_value = NoValue | I32 u32 | I64 u64

definition hmap :: "('a \<Rightarrow> 'b) \<Rightarrow> ('st, 'a) host \<Rightarrow> ('st, 'b) host" where
  "hmap f m = hbind m (\<lambda>x. hreturn (f x))"

fun host_function :: "('h, 'i, 's, 'k, 'm) host_env \<Rightarrow> host_call \<Rightarrow> (('m, 'i, 's, 'h) session, host_value) host" where
  "host_function E (DebugLog ptr len) = hmap (\<lambda>_. NoValue) (debug_log E ptr len)"
| "host_function E (SendIpc target ptr len) = hmap I32 (send_ipc E target ptr len)"
| "host_function E (TcpRequest ip_ptr port ptr len) = hmap I32 (tcp_request E ip_ptr port ptr len)"
| "host_function E (ResolveDns ptr len out) = hmap I32 (resolve_dns E ptr len out)"
| "host_function E (FileRead ptr len out out_len) = hmap I32 (file_read E ptr len out out_len)"
| "host_function E (FileWrite ptr len dat dat_len) = hmap I32 (file_write E ptr len dat dat_len)"
| "host_function E (FileList ptr len out out_len) = hmap I32 (file_list E ptr len out out_len)"
| "host_function E GetTime = hmap I64 (get_time E)"
| "host_function E GetUptimeMs = hmap I64 get_uptime_ms"
| "host_function E (RequestCapability ty ptr len) = hmap I32 (request_capability E ty ptr len)"

end
