(* ===== verification/Host_Invariants.thy ===== *)
theory Host_Invariants
  imports Wasm_Host
begin

text \<open>
  Invariants of the kernel under everything an agent can do. An agent runs as a sequence of steps:
  host calls, changes of its own memory, and timer interrupts that come in between. A predicate on
  the kernel state that every kernel operation a host function performs keeps, is kept by every
  host function and every run; this is proved once, in a locale, and interpreted for the kernel's
  well-formedness and for the integrity of a read-only file.
\<close>

section \<open>Runs of an agent\<close>

text \<open>
  The allocator's answers may differ from call to call. A trap ends the module; the kernel then goes
  on with the next one under the same process identifier, so runs simply continue.
\<close>

inductive guest_step ::
    "('h, 'i, 's, 'k, 'm) host_env \<Rightarrow> ('m, 'i, 's, 'h) session \<Rightarrow> host_call list \<Rightarrow> ('m, 'i, 's, 'h) session \<Rightarrow> bool"
  for E where
  call: "host_function (E\<lparr>alloc_ok := a\<rparr>) c st = Done (r, st') \<Longrightarrow> guest_step E st [c] st'"
| compute: "guest_step E st [] (st\<lparr>st_mem := m\<rparr>)"
| timer: "guest_step E st [] (st\<lparr>st_k := (st_k st)\<lparr>k_uptime := tick 18 (k_uptime (st_k st))\<rparr>\<rparr>)"

inductive guest_run ::
    "('h, 'i, 's, 'k, 'm) host_env \<Rightarrow> ('m, 'i, 's, 'h) session \<Rightarrow> host_call list \<Rightarrow> ('m, 'i, 's, 'h) session \<Rightarrow> bool"
  for E where
  stop: "guest_run E st [] st"
| more: "guest_step E st cs st1 \<Longrightarrow> guest_run E st1 cs' st2 \<Longrightarrow> guest_run E st (cs @ cs') st2"

inductive_cases guest_stepE: "guest_step E st cs st'"

lemma guest_run_one: "guest_step E st cs st' \<Longrightarrow> guest_run E st cs st'"
  using guest_run.more [OF _ guest_run.stop] by fastforce

section \<open>The contract of an invariant\<close>

text \<open>
  \<open>I\<close> is kept by every kernel operation host functions perform, and the operations panic only in the ways \<open>b\<close>
  accepts. The operations of the network, which only two host functions perform, and the grant of a capability
  are extensions of the contract.
\<close>

definition op_keeps :: "(panic \<Rightarrow> bool) \<Rightarrow> (('i, 's, 'h) kernel \<Rightarrow> bool) \<Rightarrow> (('i, 's, 'h) kernel \<Rightarrow> ('a \<times> ('i, 's, 'h) kernel) outcome) \<Rightarrow> bool" where
  "op_keeps b I F \<longleftrightarrow> (\<forall>k. I k \<longrightarrow> (case F k of Done (x, k') \<Rightarrow> I k' | Panic p \<Rightarrow> b p))"

lemma maintains_op: "op_keeps b I F \<Longrightarrow> maintains b (\<lambda>st. st_pid st = pid \<and> I (st_k st)) (hkernel F)"
  by (rule maintains_hkernel) (auto simp: op_keeps_def split: outcome.splits)

locale host_invariant =
  fixes E :: "('h, 'i, 's, 'k, 'm) host_env"
    and b :: "panic \<Rightarrow> bool"
    and pid :: u64
    and I :: "('i, 's, 'h) kernel \<Rightarrow> bool"
  assumes serial: "I k \<Longrightarrow> I (k_serial line k)"
    and screen: "op_keeps b I (\<lambda>k. map_outcome (\<lambda>con. ((), k\<lparr>k_console := con\<rparr>)) (println line (k_console k)))"
    and send: "I k \<Longrightarrow> I (k\<lparr>k_ipc := snd (send_message (k_caps k) (ProcessId pid) recipient dat [] (k_ipc k))\<rparr>)"
    and store: "I k \<Longrightarrow> I (k\<lparr>k_vfs := snd (write_file path dat pid (k_vfs k))\<rparr>)"
    and clock: "op_keeps b I (k_time (platform_of E))"
    and timer: "I k \<Longrightarrow> I (k\<lparr>k_uptime := t\<rparr>)"
    and alloc: "b AllocError \<or> alloc_ok E n"
begin

abbreviation inv :: "('m, 'i, 's, 'h) session \<Rightarrow> bool" where
  "inv st \<equiv> st_pid st = pid \<and> I (st_k st)"

lemma inv_pid: "maintains b inv (f pid) \<Longrightarrow> maintains b inv (hbind (hget st_pid) f)"
  by (simp add: maintains_def sat_simps)

lemma inv_access [maintains_intros]:
  "maintains b inv get_memory" "maintains b inv (guest_read E ptr n err)"
  "maintains b inv (guest_write E ptr bytes err)" "maintains b inv (guest_str bytes err)"
  "maintains b inv (host_serial line)" "maintains b inv (alloc_zeroed E n)" "maintains b inv (guest_buffer E ptr len err)"
  using alloc by (auto simp: maintains_def sat_simps serial split: option.splits)

lemma inv_checks [maintains_intros]:
  "maintains b inv (hcall (\<lambda>st. can_send_to (C st) (ids st) t))"
  "maintains b inv (hcall (\<lambda>st. can_access_network (C st) (ids st)))"
  "maintains b inv (hcall (\<lambda>st. can_read_file (C st) (ids st) path))"
  "maintains b inv (hcall (\<lambda>st. can_write_file (C st) (ids st) path))"
  by (rule maintains_hcall, simp add: can_eqs)+

lemma inv_ops [maintains_intros]:
  "maintains b inv (host_println line)" "maintains b inv (hkernel (k_send (ProcessId pid) recipient dat []))"
  "maintains b inv (hkernel (k_write_file path dat pid))" "maintains b inv (hkernel (k_time (platform_of E)))"
  unfolding host_println_def
  using send store screen clock
  by (auto intro!: maintains_op simp: op_keeps_def k_send_def k_write_file_def case_prod_unfold Let_def)

lemma inv_debug_log: "maintains b inv (debug_log E ptr len)"
  unfolding debug_log_def Let_def by (intro inv_pid maintains_intros)

lemma inv_send_ipc: "maintains b inv (send_ipc E target ptr len)"
  unfolding send_ipc_def by (intro inv_pid maintains_intros)

lemma inv_file_read: "maintains b inv (file_read E ptr len out out_len)"
  unfolding file_read_def by (intro inv_pid maintains_intros)

lemma inv_file_write: "maintains b inv (file_write E ptr len dat dat_len)"
  unfolding file_write_def by (intro inv_pid maintains_intros)

lemma inv_file_list: "maintains b inv (file_list E ptr len out out_len)"
  unfolding file_list_def by (intro inv_pid maintains_intros)

lemma inv_get_time: "maintains b inv (get_time E)"
  unfolding get_time_def by (intro inv_pid maintains_intros)

lemma inv_get_uptime_ms: "maintains b inv get_uptime_ms"
  unfolding get_uptime_ms_def by (intro inv_pid maintains_intros)

text \<open>Up to the grant, a request for a capability is a log line and a message to the supervisor.\<close>

lemma inv_request_capability:
  assumes "\<And>detail. maintains b inv (auto_grant pid cap_type detail)"
  shows "maintains b inv (request_capability E cap_type ptr len)"
  unfolding request_capability_def Let_def by (intro inv_pid maintains_intros assms)

lemmas inv_local_calls = inv_debug_log inv_send_ipc inv_file_read inv_file_write inv_file_list inv_get_time
  inv_get_uptime_ms

end

locale host_invariant_net = host_invariant +
  assumes connect: "op_keeps b I (tcp_syn (platform_of E) ip port)"
    and lookup: "op_keeps b I (kernel_resolve (platform_of E) domain)"
begin

lemma inv_net_ops [maintains_intros]:
  "maintains b inv (hkernel (tcp_syn (platform_of E) ip port))"
  "maintains b inv (hkernel (kernel_resolve (platform_of E) domain))"
  using connect lookup by (auto intro!: maintains_op)

lemma inv_tcp_request: "maintains b inv (tcp_request E ip_ptr port ptr len)"
  unfolding tcp_request_def by (intro inv_pid maintains_intros)

lemma inv_resolve_dns: "maintains b inv (resolve_dns E ptr len out)"
  unfolding resolve_dns_def by (intro inv_pid maintains_intros)

lemmas inv_calls = inv_local_calls inv_tcp_request inv_resolve_dns

end

locale host_invariant_grant = host_invariant_net +
  assumes grant: "op_keeps b I (k_grant cap pid)"
begin

lemma inv_auto_grant: "maintains b inv (auto_grant pid cap_type detail)"
  unfolding auto_grant_def Let_def by (intro maintains_intros maintains_op grant)

lemma inv_host_function: "maintains b inv (host_function E c)"
  by (cases c) (auto simp: hmap_def intro!: maintains_intros inv_calls inv_request_capability inv_auto_grant)

end

lemma host_invariant_grant_alloc:
  assumes "host_invariant_grant E any_panic pid I"
  shows "host_invariant_grant (E\<lparr>alloc_ok := a\<rparr>) any_panic pid I"
  using assms by (simp add: host_invariant_grant_def host_invariant_net_def host_invariant_net_axioms_def host_invariant_def)

lemma guest_step_inv:
  assumes "host_invariant_grant E any_panic pid I" and "guest_step E st cs st'" and "st_pid st = pid \<and> I (st_k st)"
  shows "st_pid st' = pid \<and> I (st_k st')"
  using assms(2)
proof cases
  case (call a c r)
  have "maintains any_panic (\<lambda>st. st_pid st = pid \<and> I (st_k st)) (host_function (E\<lparr>alloc_ok := a\<rparr>) c)"
    using host_invariant_grant_alloc [OF assms(1)] by (rule host_invariant_grant.inv_host_function)
  then show ?thesis using assms(3) call(2) by (rule maintainsD)
next
  case timer
  then show ?thesis using assms(1,3) by (simp add: host_invariant_grant_def host_invariant_net_def host_invariant_net_axioms_def host_invariant_def)
qed (use assms(3) in simp)

lemma guest_run_inv:
  assumes "host_invariant_grant E any_panic (st_pid st) I" and "guest_run E st cs st'" and "I (st_k st)"
  shows "st_pid st' = st_pid st \<and> I (st_k st')"
proof -
  have "st_pid st' = pid \<and> I (st_k st')"
    if "host_invariant_grant E any_panic pid I" "st_pid st = pid \<and> I (st_k st)" for pid
    using assms(2) that(2)
    by (induction rule: guest_run.induct) (auto dest: guest_step_inv [OF that(1)])
  then show ?thesis using assms(1,3) by blast
qed

section \<open>The kernel is well-formed\<close>

definition kernel_ok :: "('i, 's, 'h) kernel \<Rightarrow> bool" where
  "kernel_ok k \<longleftrightarrow> caps_ok (k_caps k) \<and> registry_ok (k_registry k) \<and> ipc_ok (k_ipc k) \<and> vfs_ok (k_vfs k) \<and>
     console_ok (k_console k)"

text \<open>What the network operations leave alone.\<close>

lemma tcp_syn_frame:
  "tcp_syn pf ip port k = Done (sent, k') \<Longrightarrow>
     k_caps k' = k_caps k \<and> k_registry k' = k_registry k \<and> k_ipc k' = k_ipc k \<and> k_vfs k' = k_vfs k \<and>
     k_uptime k' = k_uptime k \<and> (console_ok (k_console k') \<longleftrightarrow> console_ok (k_console k))"
  by (auto simp: tcp_syn_def obind_Done_iff split: option.splits prod.splits)

lemma resolve_console: "resolve pf domain net hw con = Done (r, net', hw', con') \<Longrightarrow> console_ok con' \<longleftrightarrow> console_ok con"
  by (auto simp: resolve_def resolve_report_def obind_Done_iff Let_def split: option.splits prod.splits if_splits)

lemma kernel_resolve_frame:
  "kernel_resolve pf domain k = Done (r, k') \<Longrightarrow>
     k_caps k' = k_caps k \<and> k_registry k' = k_registry k \<and> k_ipc k' = k_ipc k \<and> k_vfs k' = k_vfs k \<and>
     k_uptime k' = k_uptime k \<and> (console_ok (k_console k') \<longleftrightarrow> console_ok (k_console k))"
  by (auto simp: kernel_resolve_def map_outcome_Done_iff dest: resolve_console)

lemma k_time_frame:
  "k_time pf k = Done (t, k') \<Longrightarrow>
     k_caps k' = k_caps k \<and> k_registry k' = k_registry k \<and> k_ipc k' = k_ipc k \<and> k_vfs k' = k_vfs k \<and>
     k_uptime k' = k_uptime k \<and> k_net k' = k_net k \<and> k_console k' = k_console k"
  by (auto simp: k_time_def map_outcome_Done_iff)

lemma k_grant_frame:
  "k_grant cap pid k = Done (x, k') \<Longrightarrow>
     k_ipc k' = k_ipc k \<and> k_vfs k' = k_vfs k \<and> k_uptime k' = k_uptime k \<and> k_net k' = k_net k \<and>
     k_console k' = k_console k \<and> k_hw k' = k_hw k \<and>
     (\<exists>i. create_capability cap (k_caps k) = Done (i, k_caps k') \<and>
          k_registry k' = grant_capability_to_agent (AgentId pid) i (k_registry k))"
  by (auto simp: k_grant_def map_outcome_Done_iff)

lemmas kernel_frames = tcp_syn_frame kernel_resolve_frame k_time_frame k_grant_frame

lemma op_keeps_partialI:
  "(\<And>k x k'. I k \<Longrightarrow> F k = Done (x, k') \<Longrightarrow> I k') \<Longrightarrow> op_keeps any_panic I F"
  by (auto simp: op_keeps_def split: outcome.splits)

lemma println_keeps: "println line con = Done con' \<Longrightarrow> console_ok con \<Longrightarrow> console_ok con'"
  using println_total [of con line] by auto

interpretation wf: host_invariant_grant E any_panic pid kernel_ok for E :: "('h, 'i, 's, 'k, 'm) host_env" and pid
proof
  fix k :: "('i, 's, 'h) kernel"
  assume ok: "kernel_ok k"
  then show "kernel_ok (k_serial line k)" for line by (simp add: kernel_ok_def)
  show "kernel_ok (k\<lparr>k_ipc := snd (send_message (k_caps k) (ProcessId pid) recipient dat [] (k_ipc k))\<rparr>)" for recipient dat
    using ok by (simp add: kernel_ok_def ipc_ok_send)
  show "kernel_ok (k\<lparr>k_vfs := snd (write_file path dat pid (k_vfs k))\<rparr>)" for path dat pid
    using ok by (simp add: kernel_ok_def vfs_ok_write)
  show "kernel_ok (k\<lparr>k_uptime := t\<rparr>)" for t using ok by (simp add: kernel_ok_def)
next
  show "op_keeps any_panic kernel_ok (\<lambda>k. map_outcome (\<lambda>con. ((), k\<lparr>k_console := con\<rparr>)) (println line (k_console k)))" for line
    by (rule op_keeps_partialI) (auto simp: kernel_ok_def map_outcome_Done_iff println_keeps)
  show "op_keeps any_panic kernel_ok (tcp_syn (platform_of E) ip port)" for ip port
    by (rule op_keeps_partialI, drule tcp_syn_frame) (simp add: kernel_ok_def)
  show "op_keeps any_panic kernel_ok (kernel_resolve (platform_of E) domain)" for domain
    by (rule op_keeps_partialI, drule kernel_resolve_frame) (simp add: kernel_ok_def)
  show "op_keeps any_panic kernel_ok (k_time (platform_of E))"
    by (rule op_keeps_partialI, drule k_time_frame) (simp add: kernel_ok_def)
  show "op_keeps any_panic kernel_ok (k_grant cap pid)" for cap
    by (rule op_keeps_partialI, drule k_grant_frame) (auto simp: kernel_ok_def registry_ok_grant caps_ok_create)
qed simp

section \<open>Read-only files\<close>

definition holds_file :: "virtual_file \<Rightarrow> string \<Rightarrow> ('i, 's, 'h) kernel \<Rightarrow> bool" where
  "holds_file f n k \<longleftrightarrow> vf_read_only f \<and> vfs_ok (k_vfs k) \<and> file_at (k_vfs k) n = Some f"

text \<open>Operations that do not touch the files keep them.\<close>

lemma op_keeps_vfs:
  "(\<And>k x k'. F k = Done (x, k') \<Longrightarrow> k_vfs k' = k_vfs k) \<Longrightarrow> op_keeps any_panic (\<lambda>k. P (k_vfs k)) F"
  by (rule op_keeps_partialI) simp

interpretation ro: host_invariant_grant E any_panic pid "holds_file f n"
  for E :: "('h, 'i, 's, 'k, 'm) host_env" and pid f n
  unfolding holds_file_def
proof
  fix k :: "('i, 's, 'h) kernel" and path dat
  assume ok: "vf_read_only f \<and> vfs_ok (k_vfs k) \<and> file_at (k_vfs k) n = Some f"
  show "vf_read_only f \<and> vfs_ok (k_vfs (k\<lparr>k_vfs := snd (write_file path dat pid (k_vfs k))\<rparr>)) \<and>
    file_at (k_vfs (k\<lparr>k_vfs := snd (write_file path dat pid (k_vfs k))\<rparr>)) n = Some f"
    using ok write_file_locked [of "k_vfs k" n f dat pid] write_file_other [of n path "k_vfs k" dat pid]
    by (cases "path = n") (auto simp: vfs_ok_write)
next
  show "op_keeps any_panic (\<lambda>k. vf_read_only f \<and> vfs_ok (k_vfs k) \<and> file_at (k_vfs k) n = Some f)
    (\<lambda>k. map_outcome (\<lambda>con. ((), k\<lparr>k_console := con\<rparr>)) (println line (k_console k)))" for line
    by (rule op_keeps_vfs) (auto simp: map_outcome_Done_iff)
  show "op_keeps any_panic (\<lambda>k. vf_read_only f \<and> vfs_ok (k_vfs k) \<and> file_at (k_vfs k) n = Some f) (tcp_syn (platform_of E) ip port)" for ip port
    by (rule op_keeps_vfs) (simp add: tcp_syn_frame)
  show "op_keeps any_panic (\<lambda>k. vf_read_only f \<and> vfs_ok (k_vfs k) \<and> file_at (k_vfs k) n = Some f) (kernel_resolve (platform_of E) domain)" for domain
    by (rule op_keeps_vfs) (simp add: kernel_resolve_frame)
  show "op_keeps any_panic (\<lambda>k. vf_read_only f \<and> vfs_ok (k_vfs k) \<and> file_at (k_vfs k) n = Some f) (k_time (platform_of E))"
    by (rule op_keeps_vfs) (simp add: k_time_frame)
  show "op_keeps any_panic (\<lambda>k. vf_read_only f \<and> vfs_ok (k_vfs k) \<and> file_at (k_vfs k) n = Some f) (k_grant cap pid)" for cap
    by (rule op_keeps_vfs) (simp add: k_grant_frame)
qed simp_all

end
