(* ===== verification/Sandbox.thy ===== *)
theory Sandbox
  imports Host_Invariants
begin

text \<open>
  What an agent can and cannot do to the rest of the system: complete mediation by capabilities,
  isolation from other agents, what denial looks like, and how far escalation reaches.
\<close>

section \<open>Authority\<close>

definition may_write :: "('m, 'i, 's, 'h) session \<Rightarrow> string \<Rightarrow> bool" where
  "may_write st name \<longleftrightarrow> (\<exists>pre r. FileSystem pre r True \<in> held st \<and> starts_with name pre)"

definition may_read :: "('m, 'i, 's, 'h) session \<Rightarrow> string \<Rightarrow> bool" where
  "may_read st name \<longleftrightarrow> (\<exists>pre w. FileSystem pre True w \<in> held st \<and> starts_with name pre)"

definition may_send :: "('m, 'i, 's, 'h) session \<Rightarrow> process_id \<Rightarrow> bool" where
  "may_send st p \<longleftrightarrow> (\<exists>r. Process (raw_pid p) True r \<in> held st)"

definition may_network :: "('m, 'i, 's, 'h) session \<Rightarrow> bool" where
  "may_network st \<longleftrightarrow> Network \<in> held st"

lemmas may_defs = may_write_def may_read_def may_send_def may_network_def

lemma held_iff: "c \<in> held st \<longleftrightarrow> (\<exists>i \<in> set (caller_caps st). cap_store (k_caps (st_k st)) i = Some c)"
  by (simp add: held_def set_resolved)

text \<open>The checks of the host functions decide exactly the authority of the caller.\<close>

lemma checks_decide:
  "can_write_file (k_caps (st_k st)) (caller_caps st) path = Done (may_write st path)"
  "can_read_file (k_caps (st_k st)) (caller_caps st) path = Done (may_read st path)"
  "can_send_to (k_caps (st_k st)) (caller_caps st) t = Done (may_send st (ProcessId t))"
  "can_access_network (k_caps (st_k st)) (caller_caps st) = Done (may_network st)"
  by (auto simp: can_eqs may_defs held_iff)

section \<open>Mediation\<close>

text \<open>
  \<open>within st st'\<close>: from \<open>st\<close> to \<open>st'\<close> no file changed that the caller has no capability to write, no
  mailbox it has no capability to send to, the network stack only if it has the network
  capability, and capabilities and agents not at all.
\<close>

definition within :: "('m, 'i, 's, 'h) session \<Rightarrow> ('m, 'i, 's, 'h) session \<Rightarrow> bool" where
  "within st st' \<longleftrightarrow>
     st_pid st' = st_pid st \<and> k_caps (st_k st') = k_caps (st_k st) \<and> k_registry (st_k st') = k_registry (st_k st) \<and>
     (\<forall>n. file_at (k_vfs (st_k st')) n \<noteq> file_at (k_vfs (st_k st)) n \<longrightarrow> may_write st n) \<and>
     (\<forall>p. k_ipc (st_k st') p \<noteq> k_ipc (st_k st) p \<longrightarrow> may_send st p) \<and>
     (k_net (st_k st') \<noteq> k_net (st_k st) \<longrightarrow> may_network st)"

lemma within_refl [simp]: "within st st"
  by (simp add: within_def)

lemma within_held: "within st st' \<Longrightarrow> held st' = held st"
  by (simp add: within_def held_def caller_caps_def)

lemma within_trans: "within st st1 \<Longrightarrow> within st1 st2 \<Longrightarrow> within st st2"
  using within_held [of st st1] unfolding within_def may_defs by metis

text \<open>
  The same as an invariant of the host computation that started in \<open>st0\<close>. The guards of the host
  functions become the conditions under which the guarded operation keeps it.
\<close>

definition inside :: "('m, 'i, 's, 'h) session \<Rightarrow> ('m, 'i, 's, 'h) session \<Rightarrow> bool" where
  "inside st0 st \<longleftrightarrow> within st0 st \<and> vfs_ok (k_vfs (st_k st))"

named_theorems inside_intros \<open>rules for staying inside the caller's authority\<close>

lemma inside_checks:
  assumes "inside st0 st"
  shows "caller_caps st = caller_caps st0" "k_caps (st_k st) = k_caps (st_k st0)" "st_pid st = st_pid st0"
    "may_send st = may_send st0" "may_network st = may_network st0"
  using assms within_held [of st0 st] by (auto simp: inside_def within_def caller_caps_def may_defs)

lemma inside_access [inside_intros]:
  "maintains any_panic (inside st0) get_memory" "maintains any_panic (inside st0) (alloc_zeroed E n)"
  "maintains any_panic (inside st0) (guest_read E ptr n err)" "maintains any_panic (inside st0) (guest_buffer E ptr len err)"
  "maintains any_panic (inside st0) (guest_write E ptr bytes err)" "maintains any_panic (inside st0) (guest_str bytes err)"
  "maintains any_panic (inside st0) (host_serial line)" "maintains any_panic (inside st0) (host_println line)"
  by (auto simp: maintains_def sat_simps inside_def within_def split: option.split outcome.split)

lemma inside_guards [inside_intros]:
  "maintains any_panic (inside st0) (g (caller_caps st0)) \<Longrightarrow> maintains any_panic (inside st0) (hbind (hget caller_caps) g)"
  "maintains any_panic (inside st0) (f (may_send st0 (ProcessId t))) \<Longrightarrow>
     maintains any_panic (inside st0) (hbind (hcall (\<lambda>st. can_send_to (k_caps (st_k st)) (caller_caps st) t)) f)"
  "maintains any_panic (inside st0) (f (may_network st0)) \<Longrightarrow>
     maintains any_panic (inside st0) (hbind (hcall (\<lambda>st. can_access_network (k_caps (st_k st)) (caller_caps st))) f)"
  "maintains any_panic (inside st0) (f (may_read st0 path)) \<Longrightarrow>
     maintains any_panic (inside st0) (hbind (hcall (\<lambda>st. can_read_file (k_caps (st_k st)) (caller_caps st0) path)) f)"
  "maintains any_panic (inside st0) (f (may_write st0 path)) \<Longrightarrow>
     maintains any_panic (inside st0) (hbind (hcall (\<lambda>st. can_write_file (k_caps (st_k st)) (caller_caps st0) path)) f)"
  by (simp_all add: maintains_def sat_simps inside_checks checks_decide)

lemma inside_if [inside_intros]:
  "(c \<Longrightarrow> maintains any_panic P m) \<Longrightarrow> (\<not> c \<Longrightarrow> maintains any_panic P m') \<Longrightarrow> maintains any_panic P (if c then m else m')"
  by simp

lemma inside_send [inside_intros]:
  assumes "\<not> \<not> may_send st0 (ProcessId t)"
  shows "maintains any_panic (inside st0) (hkernel (k_send from (ProcessId t) dat ids))"
proof (rule maintains_hkernel)
  fix st assume st: "inside st0 st"
  have "snd (send_message cs from (ProcessId t) dat ids eps) p = eps p" if "p \<noteq> ProcessId t" for cs eps p
    using that by (rule send_message_other)
  then show "case k_send from (ProcessId t) dat ids (st_k st) of Done (x, k) \<Rightarrow> inside st0 (st\<lparr>st_k := k\<rparr>) | Panic p \<Rightarrow> True"
    using st assms by (auto simp: k_send_def inside_def within_def Let_def case_prod_unfold) metis+
qed

lemma inside_write [inside_intros]:
  assumes "\<not> \<not> may_write st0 path"
  shows "maintains any_panic (inside st0) (hkernel (k_write_file path dat pid))"
proof (rule maintains_hkernel)
  fix st assume st: "inside st0 st"
  then have "file_at (snd (write_file path dat pid (k_vfs (st_k st)))) n = file_at (k_vfs (st_k st)) n" if "n \<noteq> path" for n
    using that by (simp add: inside_def write_file_other)
  then show "case k_write_file path dat pid (st_k st) of Done (x, k) \<Rightarrow> inside st0 (st\<lparr>st_k := k\<rparr>) | Panic p \<Rightarrow> True"
    using st assms by (auto simp: k_write_file_def inside_def within_def Let_def case_prod_unfold vfs_ok_write) metis+
qed

lemma inside_net [inside_intros]:
  "\<not> \<not> may_network st0 \<Longrightarrow> maintains any_panic (inside st0) (hkernel (tcp_syn pf ip port))"
  "\<not> \<not> may_network st0 \<Longrightarrow> maintains any_panic (inside st0) (hkernel (kernel_resolve pf domain))"
  "maintains any_panic (inside st0) (hkernel (k_time pf))"
  by (rule maintains_hkernel;
      auto simp: inside_def within_def dest!: tcp_syn_frame kernel_resolve_frame k_time_frame split: outcome.split)+

definition escalates :: "host_call \<Rightarrow> bool" where
  "escalates c \<longleftrightarrow> (case c of RequestCapability _ _ _ \<Rightarrow> True | _ \<Rightarrow> False)"

lemma inside_calls:
  "maintains any_panic (inside st0) (debug_log E p l)" "maintains any_panic (inside st0) (send_ipc E t p l)"
  "maintains any_panic (inside st0) (tcp_request E i q p l)" "maintains any_panic (inside st0) (resolve_dns E p l out)"
  "maintains any_panic (inside st0) (file_read E p l d dl)" "maintains any_panic (inside st0) (file_write E p l d dl)"
  "maintains any_panic (inside st0) (file_list E p l d dl)" "maintains any_panic (inside st0) (get_time E)"
  "maintains any_panic (inside st0) get_uptime_ms"
  unfolding debug_log_def send_ipc_def tcp_request_def resolve_dns_def file_read_def file_write_def file_list_def
    get_time_def get_uptime_ms_def Let_def
  by (intro inside_intros maintains_intros; assumption)+

lemma inside_host_function: "\<not> escalates c \<Longrightarrow> maintains any_panic (inside st0) (host_function E c)"
  by (cases c) (auto simp: hmap_def escalates_def intro!: maintains_intros inside_calls)

lemma guest_run_within:
  assumes "guest_run E st cs st'" and "\<forall>c \<in> set cs. \<not> escalates c" and "vfs_ok (k_vfs (st_k st))"
  shows "within st st'"
proof -
  have "inside st0 st'" if "inside st0 st" for st0
    using assms(1,2) that
  proof (induction rule: guest_run.induct)
    case (more st cs st1 cs' st2)
    from more.hyps(1) have "inside st0 st1"
    proof cases
      case (call a c r)
      then have "maintains any_panic (inside st0) (host_function (E\<lparr>alloc_ok := a\<rparr>) c)"
        using more.prems(1) by (simp add: inside_host_function)
      then show ?thesis using more.prems(2) call(2) by (rule maintainsD)
    qed (use more.prems(2) in \<open>simp_all add: inside_def within_def\<close>)
    then show ?case using more by simp
  qed simp
  then show ?thesis using assms(3) by (simp add: inside_def)
qed

section \<open>Isolation\<close>

text \<open>A mailbox a run with process identifier \<open>pid\<close> may leave behind: as before, with messages of its
  own behind the old ones, none of which carries a capability.\<close>

definition grown :: "u64 \<Rightarrow> ipc_endpoint option \<Rightarrow> ipc_endpoint option \<Rightarrow> bool" where
  "grown pid e0 e \<longleftrightarrow>
     (case e0 of
        None \<Rightarrow> e = None
      | Some ep \<Rightarrow> \<exists>ms. list_all (\<lambda>m. sender m = ProcessId pid \<and> msg_capabilities m = []) ms \<and>
                      e = Some (ep\<lparr>messages := messages ep @ ms\<rparr>))"

definition owned_or_same :: "u64 \<Rightarrow> virtual_file option \<Rightarrow> virtual_file option \<Rightarrow> bool" where
  "owned_or_same pid f0 f \<longleftrightarrow> f = f0 \<or> (\<exists>g. f = Some g \<and> \<not> vf_read_only g \<and> vf_owner_pid g = pid)"

definition isolated :: "u64 \<Rightarrow> ('i, 's, 'h) kernel \<Rightarrow> ('i, 's, 'h) kernel \<Rightarrow> bool" where
  "isolated pid k0 k \<longleftrightarrow> kernel_ok k \<and>
     (\<forall>j. j \<noteq> AgentId pid \<longrightarrow> agents (k_registry k) j = agents (k_registry k0) j) \<and>
     (\<forall>j. agents (k_registry k) j = None \<longleftrightarrow> agents (k_registry k0) j = None) \<and>
     (\<forall>i c. cap_store (k_caps k0) i = Some c \<longrightarrow> cap_store (k_caps k) i = Some c) \<and>
     (\<forall>p. grown pid (k_ipc k0 p) (k_ipc k p)) \<and>
     (\<forall>n. owned_or_same pid (file_at (k_vfs k0) n) (file_at (k_vfs k) n))"

lemma grown_refl [simp]: "grown pid e e"
  by (auto simp: grown_def split: option.split intro!: exI [where x = "[]"])

lemma isolated_refl: "kernel_ok k \<Longrightarrow> isolated pid k k"
  by (simp add: isolated_def owned_or_same_def)

lemma grown_send:
  assumes "grown pid (e0 p) (eps p)"
  shows "grown pid (e0 p) (snd (send_message cs (ProcessId pid) t dat [] eps) p)"
proof (cases "p = t \<and> (\<exists>ep. eps p = Some ep \<and> length (messages ep) < max_messages ep)")
  case True
  then obtain ep where ep: "eps p = Some ep" "length (messages ep) < max_messages ep" by blast
  then obtain ep0 ms where "e0 p = Some ep0" "list_all (\<lambda>m. sender m = ProcessId pid \<and> msg_capabilities m = []) ms"
    "ep = ep0\<lparr>messages := messages ep0 @ ms\<rparr>"
    using assms by (auto simp: grown_def split: option.splits)
  then show ?thesis
    using True ep
    by (auto simp: send_message_def grown_def
        intro!: exI [where x = "ms @ [\<lparr>sender = ProcessId pid, msg_data = dat, msg_capabilities = []\<rparr>]"])
next
  case False
  then have "snd (send_message cs (ProcessId pid) t dat [] eps) p = eps p"
    by (auto simp: send_message_def split: option.splits)
  then show ?thesis using assms by simp
qed

lemma owned_or_same_write:
  assumes "vfs_ok reg" and "owned_or_same pid (f0 n) (file_at reg n)"
  shows "owned_or_same pid (f0 n) (file_at (snd (write_file path dat pid reg)) n)"
proof (cases "n = path")
  case False
  then show ?thesis using assms by (simp add: write_file_other)
next
  case True
  show ?thesis
  proof (cases "\<exists>f. file_at reg n = Some f \<and> vf_read_only f")
    case True
    then show ?thesis using assms(2) write_file_locked [of reg n _ dat pid] \<open>n = path\<close> by auto
  next
    case False
    then obtain reg' where "write_file n dat pid reg = (True, reg')" "file_at reg' = (file_at reg)(n \<mapsto> agent_file n dat pid)"
      using write_file_free [OF assms(1), of n dat pid] by auto
    then show ?thesis using \<open>n = path\<close> by (simp add: owned_or_same_def agent_file_def)
  qed
qed

lemma isolated_frame:
  assumes "isolated pid k0 k" and "kernel_ok k'" and "k_registry k' = k_registry k" and "k_caps k' = k_caps k"
    and "k_ipc k' = k_ipc k" and "k_vfs k' = k_vfs k"
  shows "isolated pid k0 k'"
  using assms by (simp add: isolated_def)

lemma wf_ops:
  "op_keeps any_panic kernel_ok (\<lambda>k. map_outcome (\<lambda>con. ((), k\<lparr>k_console := con\<rparr>)) (println line (k_console k)))"
  "op_keeps any_panic kernel_ok (tcp_syn pf ip port)" "op_keeps any_panic kernel_ok (kernel_resolve pf domain)"
  "op_keeps any_panic kernel_ok (k_time pf)"
  using wf.screen wf.connect [of "\<lparr>platform_of = pf, wmem = undefined, alloc_ok = undefined\<rparr>"]
    wf.lookup [of "\<lparr>platform_of = pf, wmem = undefined, alloc_ok = undefined\<rparr>"]
    wf.clock [of "\<lparr>platform_of = pf, wmem = undefined, alloc_ok = undefined\<rparr>"]
  by simp_all

lemma op_isolated:
  assumes "op_keeps any_panic kernel_ok F"
    and "\<And>k x k'. F k = Done (x, k') \<Longrightarrow> k_registry k' = k_registry k \<and> k_caps k' = k_caps k \<and> k_ipc k' = k_ipc k \<and> k_vfs k' = k_vfs k"
  shows "op_keeps any_panic (isolated pid k0) F"
proof (rule op_keeps_partialI)
  fix k x k' assume iso: "isolated pid k0 k" and F: "F k = Done (x, k')"
  have "kernel_ok k'" using assms(1) iso F by (auto simp: op_keeps_def isolated_def split: outcome.splits)
  then show "isolated pid k0 k'" using isolated_frame [OF iso] assms(2) [OF F] by blast
qed

lemma k_grant_isolated: "op_keeps any_panic (isolated pid k0) (k_grant cap pid)"
proof (rule op_keeps_partialI)
  fix k x k' assume iso: "isolated pid k0 k" and run: "k_grant cap pid k = Done (x, k')"
  note fr = k_grant_frame [OF run]
  have ok: "kernel_ok k'" using wf.grant [of cap pid] iso run by (auto simp: op_keeps_def isolated_def split: outcome.splits)
  from fr obtain i where i: "create_capability cap (k_caps k) = Done (i, k_caps k')"
    and reg: "k_registry k' = grant_capability_to_agent (AgentId pid) i (k_registry k)" by blast
  have caps: "cap_store (k_caps k') j = Some c" if "cap_store (k_caps k) j = Some c" for j c
    using i that iso caps_ok_fresh [of "k_caps k"]
    by (auto simp: create_capability_Done_iff isolated_def kernel_ok_def)
  have ag: "agents (k_registry k') j = agents (k_registry k) j" if "j \<noteq> AgentId pid" for j
    using that by (auto simp: reg grant_capability_to_agent_def split: option.split)
  show "isolated pid k0 k'"
    using iso ok fr caps ag agent_known_grant [of "AgentId pid" i "k_registry k"]
    unfolding isolated_def reg by simp
qed

interpretation iso: host_invariant_grant E any_panic pid "isolated pid k0"
  for E :: "('h, 'i, 's, 'k, 'm) host_env" and pid and k0 :: "('i, 's, 'h) kernel"
proof
  fix k :: "('i, 's, 'h) kernel"
  assume iso: "isolated pid k0 k"
  then have ok: "kernel_ok k" by (simp add: isolated_def)
  show "isolated pid k0 (k_serial line k)" for line
    by (rule isolated_frame [OF iso]) (simp_all add: wf.serial ok)
  show "isolated pid k0 (k\<lparr>k_uptime := t\<rparr>)" for t
    by (rule isolated_frame [OF iso]) (simp_all add: wf.timer ok)
  show "isolated pid k0 (k\<lparr>k_ipc := snd (send_message (k_caps k) (ProcessId pid) recipient dat [] (k_ipc k))\<rparr>)" for recipient dat
    using iso wf.send [OF ok, of pid recipient dat] by (simp add: isolated_def grown_send)
  show "isolated pid k0 (k\<lparr>k_vfs := snd (write_file path dat pid (k_vfs k))\<rparr>)" for path dat
    using iso wf.store [OF ok, of path dat pid] ok by (simp add: isolated_def owned_or_same_write kernel_ok_def)
next
  show "op_keeps any_panic (isolated pid k0) (\<lambda>k. map_outcome (\<lambda>con. ((), k\<lparr>k_console := con\<rparr>)) (println line (k_console k)))" for line
    by (rule op_isolated [OF wf_ops(1)]) (auto simp: map_outcome_Done_iff)
  show "op_keeps any_panic (isolated pid k0) (tcp_syn (platform_of E) ip port)" for ip port
    by (rule op_isolated [OF wf_ops(2)]) (simp add: tcp_syn_frame)
  show "op_keeps any_panic (isolated pid k0) (kernel_resolve (platform_of E) domain)" for domain
    by (rule op_isolated [OF wf_ops(3)]) (simp add: kernel_resolve_frame)
  show "op_keeps any_panic (isolated pid k0) (k_time (platform_of E))"
    by (rule op_isolated [OF wf_ops(4)]) (simp add: k_time_frame)
qed (simp_all add: k_grant_isolated)

end
