(* ===== verification/Memory.thy ===== *)
theory Memory
  imports Rust_Std
begin

text \<open>
  Physical frames and the kernel heap (\<^verbatim>\<open>src/memory.rs\<close>, \<^verbatim>\<open>src/allocator.rs\<close>). The bootloader's
  memory map is a list of regions with a start and an end address; the allocator hands out the
  frames of the usable ones in order. Page tables are x86_64's: \<^verbatim>\<open>map_to\<close> is a parameter.
\<close>

section \<open>The active page table\<close>

text \<open>The level-4 table is read through the window at which all physical memory is mapped; \<open>offset_table\<close>
  stands for \<^verbatim>\<open>OffsetPageTable::new\<close> on the table at a virtual address, \<open>cr3\<close> for the frame in the register.\<close>

definition active_level_4_table :: "u64 \<Rightarrow> u64 \<Rightarrow> u64 outcome" where
  "active_level_4_table cr3 physical_memory_offset = word_add physical_memory_offset cr3"

definition memory_init :: "(u64 \<Rightarrow> u64 \<Rightarrow> 'pt) \<Rightarrow> u64 \<Rightarrow> u64 \<Rightarrow> 'pt outcome" where
  "memory_init offset_table cr3 physical_memory_offset =
     map_outcome (\<lambda>level_4_table. offset_table level_4_table physical_memory_offset)
       (active_level_4_table cr3 physical_memory_offset)"

section \<open>The frame allocator\<close>

datatype region_type = Usable | OtherRegion

record memory_region =
  region_start :: u64
  region_end :: u64
  region_kind :: region_type

record frame_allocator =
  memory_map :: "memory_region list"
  next_frame :: usize

definition frame_allocator_init :: "memory_region list \<Rightarrow> frame_allocator" where
  "frame_allocator_init m = \<lparr>memory_map = m, next_frame = 0\<rparr>"

text \<open>\<^verbatim>\<open>(start..end).step_by(4096)\<close>, each address rounded down to its frame.\<close>

definition step_addresses :: "memory_region \<Rightarrow> nat list" where
  "step_addresses r =
     map (\<lambda>i. unat (region_start r) + i * 4096)
       [0..<(unat (region_end r) - unat (region_start r) + 4095) div 4096]"

definition containing_frame :: "nat \<Rightarrow> nat" where
  "containing_frame a = a div 4096 * 4096"

definition usable_frames :: "memory_region list \<Rightarrow> nat list" where
  "usable_frames m = map containing_frame (concat (map step_addresses (filter (\<lambda>r. region_kind r = Usable) m)))"

definition allocate_frame :: "frame_allocator \<Rightarrow> (nat option \<times> frame_allocator) outcome" where
  "allocate_frame fa =
     (let fs = usable_frames (memory_map fa);
          frame = (if next_frame fa < length fs then Some (fs ! next_frame fa) else None) in
      map_outcome (\<lambda>n. (frame, fa\<lparr>next_frame := n\<rparr>)) (usize_add (next_frame fa) 1))"

section \<open>The heap\<close>

definition HEAP_START :: usize where "HEAP_START = 0x444444440000"
definition HEAP_SIZE :: usize where "HEAP_SIZE = 8 * 1024 * 1024"

text \<open>\<^verbatim>\<open>Page::range_inclusive\<close> from the page of the first to the page of the last byte.\<close>

definition heap_pages :: "nat list" where
  "heap_pages =
     (let first = HEAP_START div 4096; last = (HEAP_START + HEAP_SIZE - 1) div 4096 in
      map (\<lambda>p. p * 4096) [first..<last + 1])"

datatype map_error = FrameAllocationFailed | MapFailed string

text \<open>\<^verbatim>\<open>mapper.map_to(page, frame, flags, frame_allocator)?.flush()\<close> may take frames for page tables.\<close>

fun map_pages ::
    "(nat \<Rightarrow> nat \<Rightarrow> frame_allocator \<Rightarrow> 'pt \<Rightarrow> ((map_error + unit) \<times> frame_allocator \<times> 'pt) outcome)
      \<Rightarrow> nat list \<Rightarrow> frame_allocator \<Rightarrow> 'pt \<Rightarrow> ((map_error + unit) \<times> frame_allocator \<times> 'pt) outcome" where
  "map_pages map_to [] fa pt = Done (Inr (), fa, pt)"
| "map_pages map_to (page # pages) fa pt =
     obind (allocate_frame fa) (\<lambda>(frame, fa).
     case frame of
       None \<Rightarrow> Done (Inl FrameAllocationFailed, fa, pt)
     | Some frame \<Rightarrow>
         obind (map_to page frame fa pt) (\<lambda>(r, fa, pt).
         case r of Inl e \<Rightarrow> Done (Inl e, fa, pt) | Inr _ \<Rightarrow> map_pages map_to pages fa pt))"

text \<open>On success the linked-list allocator takes over \<^verbatim>\<open>HEAP_START .. HEAP_START + HEAP_SIZE\<close>.\<close>

definition init_heap ::
    "(nat \<Rightarrow> nat \<Rightarrow> frame_allocator \<Rightarrow> 'pt \<Rightarrow> ((map_error + unit) \<times> frame_allocator \<times> 'pt) outcome)
      \<Rightarrow> frame_allocator \<Rightarrow> 'pt \<Rightarrow> ((map_error + nat \<times> nat) \<times> frame_allocator \<times> 'pt) outcome" where
  "init_heap map_to fa pt =
     map_outcome (\<lambda>(r, fa, pt). (map_sum id (\<lambda>_. (HEAP_START, HEAP_SIZE)) r, fa, pt))
       (map_pages map_to heap_pages fa pt)"

section \<open>Usable frames are distinct and usable\<close>

text \<open>A memory map as the bootloader passes it: regions are made of whole frames, lie in the 52-bit
  physical address space (outside it \<^verbatim>\<open>PhysAddr::new\<close> of the x86_64 crate panics, which the model leaves
  out) and do not overlap.\<close>

definition region_ok :: "memory_region \<Rightarrow> bool" where
  "region_ok r \<longleftrightarrow> 4096 dvd unat (region_start r) \<and> 4096 dvd unat (region_end r) \<and> unat (region_end r) \<le> 2 ^ 52"

definition apart :: "memory_region \<Rightarrow> memory_region \<Rightarrow> bool" where
  "apart r s \<longleftrightarrow> unat (region_end r) \<le> unat (region_start s) \<or> unat (region_end s) \<le> unat (region_start r)"

fun map_ok :: "memory_region list \<Rightarrow> bool" where
  "map_ok [] = True"
| "map_ok (r # rs) \<longleftrightarrow> region_ok r \<and> list_all (apart r) rs \<and> map_ok rs"

lemma step_addresses_in:
  assumes "region_ok r" and "a \<in> set (step_addresses r)"
  shows "unat (region_start r) \<le> a" "a + 4096 \<le> unat (region_end r)" "4096 dvd a"
proof -
  obtain i where a: "a = unat (region_start r) + i * 4096"
    and i: "i < (unat (region_end r) - unat (region_start r) + 4095) div 4096"
    using assms(2) by (auto simp: step_addresses_def)
  have "4096 dvd unat (region_end r) - unat (region_start r)"
    using assms(1) by (simp add: region_ok_def dvd_diff_nat)
  then obtain k where k: "unat (region_end r) - unat (region_start r) = 4096 * k" by (auto simp: dvd_def)
  have "(4096 * k + 4095) div 4096 = k" by simp
  then have "i < k" using i k by simp
  then have "i * 4096 + 4096 \<le> 4096 * k" by linarith
  then show "a + 4096 \<le> unat (region_end r)" using a k by linarith
  show "unat (region_start r) \<le> a" using a by simp
  show "4096 dvd a" using assms(1) by (simp add: a region_ok_def)
qed

lemma distinct_step_addresses: "distinct (step_addresses r)"
  by (simp add: step_addresses_def distinct_map inj_on_def)

lemma usable_frames_eq:
  assumes "map_ok m"
  shows "usable_frames m = concat (map step_addresses (filter (\<lambda>r. region_kind r = Usable) m))"
proof -
  have "containing_frame a = a" if "a \<in> set (concat (map step_addresses (filter (\<lambda>r. region_kind r = Usable) m)))" for a
  proof -
    from that obtain r where "r \<in> set m" "a \<in> set (step_addresses r)" by auto
    moreover have "region_ok r" if "r \<in> set m" for r using assms that by (induction m) auto
    ultimately have "4096 dvd a" using step_addresses_in(3) by blast
    then show ?thesis by (simp add: containing_frame_def)
  qed
  then show ?thesis unfolding usable_frames_def by (intro map_idI)
qed

lemma map_ok_region: "map_ok m \<Longrightarrow> r \<in> set m \<Longrightarrow> region_ok r"
  by (induction m) auto

lemma distinct_usable:
  "map_ok m \<Longrightarrow> distinct (concat (map step_addresses (filter (\<lambda>r. region_kind r = Usable) m)))"
proof (induction m)
  case (Cons r m)
  have "set (step_addresses r) \<inter> set (step_addresses s) = {}" if s: "s \<in> set m" for s
  proof -
    have "apart r s" "region_ok r" "region_ok s" using Cons.prems s map_ok_region by (auto simp: list_all_iff)
    then show ?thesis using step_addresses_in(1,2) [of r] step_addresses_in(1,2) [of s] by (fastforce simp: apart_def)
  qed
  then show ?case using Cons by (auto simp: distinct_step_addresses)
qed simp

lemma usable_frames_usable:
  assumes "map_ok m" and "f \<in> set (usable_frames m)"
  shows "\<exists>r \<in> set m. region_kind r = Usable \<and> unat (region_start r) \<le> f \<and> f + 4096 \<le> unat (region_end r) \<and> 4096 dvd f"
  using assms step_addresses_in map_ok_region by (auto simp: usable_frames_eq) blast

section \<open>Allocation\<close>

text \<open>\<open>n\<close> calls of \<^verbatim>\<open>allocate_frame\<close>.\<close>

fun allocate_frames :: "nat \<Rightarrow> frame_allocator \<Rightarrow> (nat option list \<times> frame_allocator) outcome" where
  "allocate_frames 0 fa = Done ([], fa)"
| "allocate_frames (Suc n) fa =
     obind (allocate_frame fa) (\<lambda>(f, fa).
     map_outcome (\<lambda>(fs, fa). (f # fs, fa)) (allocate_frames n fa))"

definition nth_frame :: "frame_allocator \<Rightarrow> nat \<Rightarrow> nat option" where
  "nth_frame fa i = (if i < length (usable_frames (memory_map fa)) then Some (usable_frames (memory_map fa) ! i) else None)"

lemma allocate_frame_eq:
  assumes "next_frame fa + 1 < usize_bound"
  shows "allocate_frame fa = Done (nth_frame fa (next_frame fa), fa\<lparr>next_frame := next_frame fa + 1\<rparr>)"
  using assms by (simp add: allocate_frame_def nth_frame_def Let_def)

lemma allocate_frames_eq:
  assumes "next_frame fa + n < usize_bound"
  shows "allocate_frames n fa = Done (map (\<lambda>i. nth_frame fa (next_frame fa + i)) [0..<n], fa\<lparr>next_frame := next_frame fa + n\<rparr>)"
  using assms
proof (induction n arbitrary: fa)
  case (Suc n)
  let ?fa = "fa\<lparr>next_frame := next_frame fa + 1\<rparr>"
  have "allocate_frames n ?fa = Done (map (\<lambda>i. nth_frame ?fa (next_frame ?fa + i)) [0..<n], ?fa\<lparr>next_frame := next_frame ?fa + n\<rparr>)"
    using Suc.prems by (intro Suc.IH) simp
  moreover have "map (\<lambda>i. nth_frame fa (next_frame fa + i)) [0..<Suc n]
      = nth_frame fa (next_frame fa) # map (\<lambda>i. nth_frame ?fa (next_frame ?fa + i)) [0..<n]"
    by (simp only: upt_conv_Cons [OF zero_less_Suc] list.map map_Suc_upt [symmetric] map_map)
      (simp add: nth_frame_def)
  ultimately show ?case using Suc.prems by (simp add: allocate_frame_eq)
qed simp

section \<open>Mapping the heap\<close>

text \<open>
  The mapper, as x86_64 documents \<^verbatim>\<open>map_to\<close>: it maps an unmapped page to the frame it is given, leaves
  other translations alone, and takes at most three frames for page tables, from the same allocator.
\<close>

definition mapper_laws ::
    "(nat \<Rightarrow> nat \<Rightarrow> frame_allocator \<Rightarrow> 'pt \<Rightarrow> ((map_error + unit) \<times> frame_allocator \<times> 'pt) outcome)
      \<Rightarrow> ('pt \<Rightarrow> nat \<Rightarrow> nat option) \<Rightarrow> bool" where
  "mapper_laws map_to tr \<longleftrightarrow>
     (\<forall>page frame fa pt. tr pt page = None \<longrightarrow> next_frame fa + 3 \<le> length (usable_frames (memory_map fa)) \<longrightarrow>
        (\<exists>fa' pt'. map_to page frame fa pt = Done (Inr (), fa', pt') \<and> memory_map fa' = memory_map fa \<and>
           next_frame fa \<le> next_frame fa' \<and> next_frame fa' \<le> next_frame fa + 3 \<and> tr pt' = (tr pt)(page \<mapsto> frame)))"

lemma mapper_lawsE:
  assumes "mapper_laws map_to tr" and "tr pt page = None" and "next_frame fa + 3 \<le> length (usable_frames (memory_map fa))"
  obtains fa' pt' where "map_to page frame fa pt = Done (Inr (), fa', pt')" "memory_map fa' = memory_map fa"
    "next_frame fa \<le> next_frame fa'" "next_frame fa' \<le> next_frame fa + 3" "tr pt' = (tr pt)(page \<mapsto> frame)"
  using assms unfolding mapper_laws_def by blast

lemma map_pages_ok:
  assumes "mapper_laws map_to tr" and "length (usable_frames (memory_map fa)) < usize_bound"
    and "distinct pages" and "\<forall>p \<in> set pages. tr pt p = None"
    and "next_frame fa + 4 * length pages \<le> length (usable_frames (memory_map fa))"
  shows "\<exists>fa' pt' g. map_pages map_to pages fa pt = Done (Inr (), fa', pt') \<and>
    (\<forall>p \<in> set pages. tr pt' p = Some (usable_frames (memory_map fa) ! g p) \<and>
        next_frame fa \<le> g p \<and> g p < length (usable_frames (memory_map fa))) \<and>
    inj_on g (set pages) \<and> (\<forall>q. q \<notin> set pages \<longrightarrow> tr pt' q = tr pt q)"
  using assms(2-)
proof (induction pages arbitrary: fa pt)
  case Nil
  then show ?case by simp
next
  case (Cons p pages)
  let ?U = "usable_frames (memory_map fa)" and ?n = "next_frame fa"
  let ?fa = "fa\<lparr>next_frame := ?n + 1\<rparr>"
  have alloc: "allocate_frame fa = Done (Some (?U ! ?n), ?fa)"
    using Cons.prems by (simp add: allocate_frame_eq nth_frame_def)
  have "tr pt p = None" "next_frame ?fa + 3 \<le> length (usable_frames (memory_map ?fa))" using Cons.prems by simp_all
  then obtain fa1 pt1 where m0: "map_to p (?U ! ?n) ?fa pt = Done (Inr (), fa1, pt1)" "memory_map fa1 = memory_map ?fa"
    "next_frame ?fa \<le> next_frame fa1" "next_frame fa1 \<le> next_frame ?fa + 3" "tr pt1 = (tr pt)(p \<mapsto> ?U ! ?n)"
    by (rule mapper_lawsE [OF assms(1)])
  then have m: "map_to p (?U ! ?n) ?fa pt = Done (Inr (), fa1, pt1)" "memory_map fa1 = memory_map fa"
    "?n + 1 \<le> next_frame fa1" "next_frame fa1 \<le> ?n + 4" "tr pt1 = (tr pt)(p \<mapsto> ?U ! ?n)"
    by simp_all
  have "\<exists>fa' pt' g. map_pages map_to pages fa1 pt1 = Done (Inr (), fa', pt') \<and>
    (\<forall>q \<in> set pages. tr pt' q = Some (usable_frames (memory_map fa1) ! g q) \<and>
        next_frame fa1 \<le> g q \<and> g q < length (usable_frames (memory_map fa1))) \<and>
    inj_on g (set pages) \<and> (\<forall>q. q \<notin> set pages \<longrightarrow> tr pt' q = tr pt1 q)"
    using Cons.prems m by (intro Cons.IH) auto
  then obtain fa' pt' g where rest: "map_pages map_to pages fa1 pt1 = Done (Inr (), fa', pt')"
    "\<And>q. q \<in> set pages \<Longrightarrow> tr pt' q = Some (?U ! g q) \<and> next_frame fa1 \<le> g q \<and> g q < length ?U"
    "inj_on g (set pages)" "\<And>q. q \<notin> set pages \<Longrightarrow> tr pt' q = tr pt1 q"
    using m(2) by auto
  have p: "p \<notin> set pages" using Cons.prems(2) by simp
  have fresh: "g q \<noteq> ?n" if "q \<in> set pages" for q using rest(2) [OF that] m(3) by simp
  have "map_pages map_to (p # pages) fa pt = Done (Inr (), fa', pt')" using alloc m(1) rest(1) by simp
  moreover have "inj_on (g(p := ?n)) (set (p # pages))"
    using rest(3) fresh p unfolding inj_on_def by (auto dest: fresh)
  moreover have "\<forall>q \<in> set (p # pages). tr pt' q = Some (?U ! (g(p := ?n)) q) \<and> ?n \<le> (g(p := ?n)) q \<and> (g(p := ?n)) q < length ?U"
    using rest(2,4) p m(3,5) Cons.prems(4) by fastforce
  moreover have "\<forall>q. q \<notin> set (p # pages) \<longrightarrow> tr pt' q = tr pt q" using rest(4) m(5) by simp
  ultimately show ?case by blast
qed

lemma heap_pages_eq: "heap_pages = map (\<lambda>p. p * 4096) [0x444444440..<0x444444440 + 2048]"
  by (simp only: heap_pages_def HEAP_START_def HEAP_SIZE_def Let_def) simp

lemma heap_pages_facts: "distinct heap_pages" "length heap_pages = 2048"
proof -
  have "inj_on (\<lambda>p. p * 4096) A" for A :: "nat set" by (simp add: inj_on_def)
  then show "distinct heap_pages" by (simp only: heap_pages_eq distinct_map distinct_upt simp_thms)
  show "length heap_pages = 2048" by (simp only: heap_pages_eq length_map length_upt diff_add_inverse)
qed

section \<open>Properties\<close>

text \<open>C30: No frame is handed out twice. Over a memory map of whole, non-overlapping regions, any
  number of calls of \<^verbatim>\<open>allocate_frame\<close> answers with the usable frames in the order of the map and then
  with none: all frames are different, page-aligned, and lie inside a region marked usable.\<close>

theorem allocate_frame_distinct_usable:
  assumes "map_ok m" and "n < usize_bound"
  shows "\<exists>fs fa. allocate_frames n (frame_allocator_init m) = Done (fs, fa) \<and>
    List.map_filter id fs = take n (usable_frames m) \<and> distinct (List.map_filter id fs) \<and>
    (\<forall>f \<in> set (List.map_filter id fs). \<exists>r \<in> set m. region_kind r = Usable \<and>
       unat (region_start r) \<le> f \<and> f + 4096 \<le> unat (region_end r) \<and> 4096 dvd f)"
proof -
  let ?fa = "frame_allocator_init m" and ?U = "usable_frames m"
  have run: "allocate_frames n ?fa = Done (map (nth_frame ?fa) [0..<n], ?fa\<lparr>next_frame := n\<rparr>)"
    using allocate_frames_eq [of ?fa n] assms(2) by (simp add: frame_allocator_init_def)
  have "List.map_filter id (map (nth_frame ?fa) [0..<n]) = take n ?U"
  proof (induction n)
    case (Suc n)
    then show ?case
      by (auto simp: List.map_filter_def nth_frame_def frame_allocator_init_def take_Suc_conv_app_nth)
  qed (simp add: List.map_filter_def)
  then show ?thesis
    using run distinct_usable [OF assms(1)] usable_frames_usable [OF assms(1)]
    by (auto simp: usable_frames_eq [OF assms(1)] dest: in_set_takeD)
qed

definition sample_map :: "memory_region list" where
  "sample_map = [\<lparr>region_start = 0x1000, region_end = 0x3000, region_kind = Usable\<rparr>,
                 \<lparr>region_start = 0x3000, region_end = 0x5000, region_kind = OtherRegion\<rparr>,
                 \<lparr>region_start = 0x6000, region_end = 0x7000, region_kind = Usable\<rparr>]"

theorem allocate_frame_distinct_usable_witness:
  "\<exists>fs fa. allocate_frames 5 (frame_allocator_init sample_map) = Done (fs, fa) \<and>
     List.map_filter id fs = [0x1000, 0x2000, 0x6000]"
proof -
  have ok: "map_ok sample_map" by (simp add: sample_map_def region_ok_def apart_def)
  have "usable_frames sample_map = [0x1000, 0x2000, 0x6000]"
    by (simp add: sample_map_def usable_frames_def step_addresses_def containing_frame_def upt_rec)
  then show ?thesis
    using allocate_frame_distinct_usable [OF ok, of 5] by (auto simp: usize_bound_def)
qed

lemma init_heap_Done:
  assumes "mapper_laws map_to tr" and "length (usable_frames m) < usize_bound"
    and "\<forall>p \<in> set heap_pages. tr pt p = None" and "8192 \<le> length (usable_frames m)"
  shows "\<exists>fa pt' g. init_heap map_to (frame_allocator_init m) pt = Done (Inr (HEAP_START, HEAP_SIZE), fa, pt') \<and>
    (\<forall>p \<in> set heap_pages. tr pt' p = Some (usable_frames m ! g p) \<and> g p < length (usable_frames m)) \<and>
    inj_on g (set heap_pages)"
proof -
  let ?U = "usable_frames m" and ?fa = "frame_allocator_init m"
  have mm: "memory_map ?fa = m" "next_frame ?fa = 0" by (simp_all add: frame_allocator_init_def)
  have "\<exists>fa pt' g. map_pages map_to heap_pages ?fa pt = Done (Inr (), fa, pt') \<and>
      (\<forall>p \<in> set heap_pages. tr pt' p = Some (?U ! g p) \<and> 0 \<le> g p \<and> g p < length ?U) \<and>
      inj_on g (set heap_pages) \<and> (\<forall>q. q \<notin> set heap_pages \<longrightarrow> tr pt' q = tr pt q)"
    using map_pages_ok [OF assms(1), of ?fa heap_pages pt, unfolded mm] assms(2-4) heap_pages_facts by simp
  then show ?thesis by (fastforce simp: init_heap_def)
qed

text \<open>C29: The heap is backed by its own frames. With a mapper that obeys its contract, an allocator that
  has four times 2048 frames left (one per page and at most three for page tables) and no heap page mapped yet,
  \<^verbatim>\<open>init_heap\<close> succeeds: every one of the 2048 pages of the 8 MiB from \<^verbatim>\<open>HEAP_START\<close> is mapped to a
  usable frame, and no two pages share one.\<close>

theorem init_heap_backs_every_page:
  assumes "mapper_laws map_to tr" and "map_ok m" and "length (usable_frames m) < usize_bound"
    and "\<forall>p \<in> set heap_pages. tr pt p = None" and "8192 \<le> length (usable_frames m)"
  shows "\<exists>fa pt'. init_heap map_to (frame_allocator_init m) pt = Done (Inr (HEAP_START, HEAP_SIZE), fa, pt') \<and>
    (\<forall>a. HEAP_START \<le> a \<and> a < HEAP_START + HEAP_SIZE \<longrightarrow>
       (\<exists>f \<in> set (usable_frames m). tr pt' (a div 4096 * 4096) = Some f)) \<and>
    inj_on (tr pt') (set heap_pages)"
proof -
  let ?U = "usable_frames m" and ?fa = "frame_allocator_init m"
  obtain fa pt' g where run: "init_heap map_to ?fa pt = Done (Inr (HEAP_START, HEAP_SIZE), fa, pt')"
    and g: "\<And>p. p \<in> set heap_pages \<Longrightarrow> tr pt' p = Some (?U ! g p) \<and> g p < length ?U" and inj: "inj_on g (set heap_pages)"
    using init_heap_Done [OF assms(1,3-5)] by blast
  have "distinct ?U" using distinct_usable [OF assms(2)] by (simp add: usable_frames_eq [OF assms(2)])
  then have "inj_on (tr pt') (set heap_pages)"
    using g inj unfolding inj_on_def by (metis nth_eq_iff_index_eq option.inject)
  moreover have "a div 4096 * 4096 \<in> set heap_pages" if "HEAP_START \<le> a" "a < HEAP_START + HEAP_SIZE" for a
  proof -
    have "0x444444440 * 4096 \<le> a" "a < (0x444444440 + 2048) * 4096"
      using that unfolding HEAP_START_def HEAP_SIZE_def by simp_all
    then have "0x444444440 \<le> a div 4096" "a div 4096 < 0x444444440 + 2048"
      using less_eq_div_iff_mult_less_eq [of 4096 "0x444444440" a] div_less_iff_less_mult [of 4096 a "0x444444440 + 2048"]
      by simp_all
    then have "a div 4096 \<in> {0x444444440..<0x444444440 + 2048}" by simp
    then show ?thesis unfolding heap_pages_eq set_map set_upt by (rule imageI)
  qed
  moreover have "\<exists>f \<in> set ?U. tr pt' p = Some f" if "p \<in> set heap_pages" for p
    using g [OF that] nth_mem by blast
  ultimately show ?thesis using run by blast
qed

definition sample_map_to :: "nat \<Rightarrow> nat \<Rightarrow> frame_allocator \<Rightarrow> (nat \<Rightarrow> nat option) \<Rightarrow> ((map_error + unit) \<times> frame_allocator \<times> (nat \<Rightarrow> nat option)) outcome" where
  "sample_map_to page frame fa pt = Done (Inr (), fa\<lparr>next_frame := next_frame fa + 3\<rparr>, pt(page \<mapsto> frame))"

theorem init_heap_backs_every_page_witness:
  "\<exists>fa pt'. init_heap sample_map_to
      (frame_allocator_init [\<lparr>region_start = 0x100000, region_end = 0x8100000, region_kind = Usable\<rparr>]) Map.empty
    = Done (Inr (HEAP_START, HEAP_SIZE), fa, pt') \<and> inj_on pt' (set heap_pages)"
proof -
  let ?m = "[\<lparr>region_start = 0x100000, region_end = 0x8100000, region_kind = Usable\<rparr>]"
  have ok: "map_ok ?m" by (simp add: region_ok_def)
  have len: "length (usable_frames ?m) = 32768"
    by (simp add: usable_frames_def) (simp add: step_addresses_def)
  have laws: "mapper_laws sample_map_to (\<lambda>pt. pt)" by (simp add: mapper_laws_def sample_map_to_def)
  show ?thesis
    using init_heap_backs_every_page [OF laws ok, of Map.empty] len by (auto simp: usize_bound_def)
qed

end
