(* ===== verification/Host_Calls.thy ===== *)
theory Host_Calls
  imports Sandbox Memory
begin

text \<open>
  What each host function returns and does, branch by branch, and the properties of the sandbox: its
  invariants, mediation, isolation, denial, escalation, and the agent's own view of its files.
\<close>

section \<open>Evaluation\<close>

definition readable :: "('h, 'i, 's, 'k, 'm) host_env \<Rightarrow> ('m, 'i, 's, 'h) session \<Rightarrow> u32 \<Rightarrow> u32 \<Rightarrow> u8 list \<Rightarrow> bool" where
  "readable E st ptr len bytes \<longleftrightarrow>
     (unat len = 0 \<or> alloc_ok E (unat len)) \<and>
     Option.bind (st_mem st) (\<lambda>m. mem_read (wmem E) m (unat ptr) (unat len)) = Some bytes"

lemmas host_eval = hbind_def hreturn_def htrap_def hget_def hcall_def hkernel_def hput_mem_def

lemma get_memory_Done: "readable E st ptr len bytes \<Longrightarrow> get_memory st = Done (Inr (), st)"
  by (cases "st_mem st") (auto simp: readable_def get_memory_def host_eval)

lemma get_memory_Some: "st_mem st = Some m \<Longrightarrow> get_memory st = Done (Inr (), st)"
  by (simp add: get_memory_def host_eval)

lemma guest_buffer_Done: "readable E st ptr len bytes \<Longrightarrow> guest_buffer E ptr len err st = Done (Inr bytes, st)"
  by (simp add: readable_def guest_buffer_def alloc_zeroed_def guest_read_def host_eval)

lemma guest_str_Done: "from_utf8 bytes = Some s \<Longrightarrow> guest_str bytes err st = Done (Inr s, st)"
  by (simp add: guest_str_def host_eval)

lemma guest_write_Done:
  "st_mem st = Some m \<Longrightarrow> mem_write (wmem E) m (unat ptr) bytes = Some m' \<Longrightarrow>
     guest_write E ptr bytes err st = Done (Inr (), st\<lparr>st_mem := Some m'\<rparr>)"
  by (simp add: guest_write_def host_eval)

lemma host_serial_Done: "host_serial line st = Done (Inr (), st\<lparr>st_k := k_serial line (st_k st)\<rparr>)"
  by (simp add: host_serial_def host_eval)

lemmas host_steps = get_memory_Done get_memory_Some guest_buffer_Done guest_str_Done guest_write_Done host_serial_Done

section \<open>Denial\<close>

definition denied :: "('m, 'i, 's, 'h) session \<Rightarrow> string \<Rightarrow> ((trap + u32) \<times> ('m, 'i, 's, 'h) session) outcome" where
  "denied st what = Done (Inr 2, st\<lparr>st_k := k_serial (''[SECURITY] Agent '' @ dec (st_pid st) @ what) (st_k st)\<rparr>)"

lemma send_ipc_denied:
  "readable E st ptr len buf \<Longrightarrow> \<not> may_send st (ProcessId t) \<Longrightarrow>
     send_ipc E t ptr len st = denied st ('' denied send to Agent '' @ dec t)"
  by (simp add: send_ipc_def host_eval host_steps checks_decide denied_def)

lemma network_denied:
  "st_mem st = Some m \<Longrightarrow> \<not> may_network st \<Longrightarrow> tcp_request E ip_ptr port ptr len st = denied st '' denied network access''"
  "st_mem st = Some m \<Longrightarrow> \<not> may_network st \<Longrightarrow> resolve_dns E ptr len out st = denied st '' denied DNS access''"
  by (simp_all add: tcp_request_def resolve_dns_def host_eval host_steps checks_decide denied_def)

lemma file_denied:
  assumes "readable E st ptr len buf" and "from_utf8 buf = Some path"
  shows "\<not> may_read st path \<Longrightarrow> file_read E ptr len out out_len st = denied st ('' denied file read: '' @ path)"
    "\<not> may_write st path \<Longrightarrow> file_write E ptr len dat dat_len st = denied st ('' denied file write: '' @ path)"
    "\<not> may_read st path \<Longrightarrow> file_list E ptr len out out_len st = denied st ('' denied file list: '' @ path)"
  using assms
  by (simp_all add: file_read_def file_write_def file_list_def host_eval host_steps checks_decide denied_def)

section \<open>Files\<close>

lemma file_write_eq:
  assumes "readable E st ptr len buf" and "from_utf8 buf = Some path" and "may_write st path"
    and "readable E st dat_ptr dat_len dat" and "write_file path dat (st_pid st) (k_vfs (st_k st)) = (ok, fs)"
  shows "file_write E ptr len dat_ptr dat_len st =
    Done (Inr (if ok then 0 else 1), st\<lparr>st_k :=
      (if ok then k_serial (''[VFS] Agent '' @ dec (st_pid st) @ '' wrote '' @ dec dat_len @ '' bytes to '' @ path)
                    ((st_k st)\<lparr>k_vfs := fs\<rparr>)
       else (st_k st)\<lparr>k_vfs := fs\<rparr>)\<rparr>)"
  using assms by (simp add: file_write_def host_eval host_steps checks_decide k_write_file_def)

lemma file_read_eq:
  assumes "readable E st ptr len buf" and "from_utf8 buf = Some path" and "may_read st path"
    and "open_file (k_vfs (st_k st)) path = Some dat" and "st_mem st = Some m"
    and "mem_write (wmem E) m (unat out) dat = Some m1"
    and "mem_write (wmem E) m1 (unat out_len) (u32_to_le_bytes (of_nat (length dat))) = Some m2"
  shows "file_read E ptr len out out_len st = Done (Inr 0, st\<lparr>st_mem := Some m2\<rparr>)"
proof -
  have "guest_write E out_len (u32_to_le_bytes (of_nat (length dat))) ''Len write failed'' (st\<lparr>st_mem := Some m1\<rparr>)
      = Done (Inr (), st\<lparr>st_mem := Some m2\<rparr>)"
    using assms(7) by (simp add: guest_write_Done)
  then show ?thesis
    using assms(1-6) by (simp add: file_read_def host_eval host_steps checks_decide)
qed

text \<open>The laws of the linear memory, as wasmi documents them.\<close>

definition memory_laws :: "'m wasm_memory \<Rightarrow> bool" where
  "memory_laws W \<longleftrightarrow>
     (\<forall>m p n bs. mem_read W m p n = Some bs \<longrightarrow> length bs = n) \<and>
     (\<forall>m p bs. mem_write W m p bs = None \<longleftrightarrow> mem_read W m p (length bs) = None) \<and>
     (\<forall>m p bs m'. mem_write W m p bs = Some m' \<longrightarrow> mem_read W m' p (length bs) = Some bs) \<and>
     (\<forall>m p bs m' q n. mem_write W m p bs = Some m' \<longrightarrow> (q + n \<le> p \<or> p + length bs \<le> q) \<longrightarrow>
        mem_read W m' q n = mem_read W m q n) \<and>
     (\<forall>m p bs m' q n. mem_write W m p bs = Some m' \<longrightarrow> (mem_read W m' q n = None \<longleftrightarrow> mem_read W m q n = None))"

lemma memory_lawsD:
  assumes "memory_laws W"
  shows "mem_read W m p n = Some bs \<Longrightarrow> length bs = n"
    and "mem_read W m p (length bs) \<noteq> None \<Longrightarrow> \<exists>m'. mem_write W m p bs = Some m'"
    and "mem_write W m p bs = Some m' \<Longrightarrow> mem_read W m' p (length bs) = Some bs"
    and "mem_write W m p bs = Some m' \<Longrightarrow> q + k \<le> p \<or> p + length bs \<le> q \<Longrightarrow> mem_read W m' q k = mem_read W m q k"
    and "mem_write W m p bs = Some m' \<Longrightarrow> mem_read W m q k \<noteq> None \<Longrightarrow> mem_read W m' q k \<noteq> None"
proof -
  note laws = assms [unfolded memory_laws_def]
  note l2 = laws [THEN conjunct2] and l3 = laws [THEN conjunct2, THEN conjunct2]
  note l4 = l3 [THEN conjunct2]
  show "mem_read W m p n = Some bs \<Longrightarrow> length bs = n" using laws [THEN conjunct1] by blast
  show "mem_read W m p (length bs) \<noteq> None \<Longrightarrow> \<exists>m'. mem_write W m p bs = Some m'"
    using l2 [THEN conjunct1] by (metis not_None_eq)
  show "mem_write W m p bs = Some m' \<Longrightarrow> mem_read W m' p (length bs) = Some bs" using l3 [THEN conjunct1] by blast
  show "mem_write W m p bs = Some m' \<Longrightarrow> q + k \<le> p \<or> p + length bs \<le> q \<Longrightarrow> mem_read W m' q k = mem_read W m q k"
    using l4 [THEN conjunct1] by blast
  show "mem_write W m p bs = Some m' \<Longrightarrow> mem_read W m q k \<noteq> None \<Longrightarrow> mem_read W m' q k \<noteq> None"
    using l4 [THEN conjunct2] by metis
qed

section \<open>Escalation\<close>

definition requested :: "u32 \<Rightarrow> string \<Rightarrow> capability" where
  "requested cap_type detail =
     (if cap_type = 0 then Network
      else if cap_type = 1 then FileSystem (if detail = [] then ''/agent/'' else detail) True True
      else Spawn 5)"

lemma resolved_snoc:
  assumes "store i = None"
  shows "(\<exists>j \<in> set (ids @ [i]). (store(i \<mapsto> cap)) j = Some c) \<longleftrightarrow> c = cap \<or> (\<exists>j \<in> set ids. store j = Some c)"
  using assms by (auto split: if_splits) (metis option.distinct(1))

lemma k_grant_held:
  assumes "caps_ok (k_caps (st_k st))" and "0 < cap_room (k_caps (st_k st))"
  shows "\<exists>k'. k_grant cap (st_pid st) (st_k st) = Done ((), k') \<and>
    held (st\<lparr>st_k := k'\<rparr>) =
      (if agents (k_registry (st_k st)) (AgentId (st_pid st)) = None then held st else insert cap (held st))"
proof -
  let ?k = "st_k st"
  obtain i cs where c: "create_capability cap (k_caps ?k) = Done (i, cs)"
    using capreg.alloc_total [OF assms] by blast
  then have cs: "cap_store cs = (cap_store (k_caps ?k))(i \<mapsto> cap)" and fresh: "cap_store (k_caps ?k) i = None"
    using caps_ok_fresh [OF assms(1)] by (simp_all add: create_capability_Done_iff)
  let ?k' = "?k\<lparr>k_caps := cs, k_registry := grant_capability_to_agent (AgentId (st_pid st)) i (k_registry ?k)\<rparr>"
  have "k_grant cap (st_pid st) ?k = Done ((), ?k')" using c by (simp add: k_grant_def)
  moreover have "held (st\<lparr>st_k := ?k'\<rparr>) =
      (if agents (k_registry ?k) (AgentId (st_pid st)) = None then held st else insert cap (held st))"
  proof (cases "agents (k_registry ?k) (AgentId (st_pid st))")
    case None
    then have "caller_caps st = []" "caller_caps (st\<lparr>st_k := ?k'\<rparr>) = []"
      by (simp_all add: caller_caps_def agent_capabilities_def grant_capability_to_agent_def)
    then show ?thesis using None by (simp add: set_eq_iff held_iff)
  next
    case (Some a)
    then have "caller_caps (st\<lparr>st_k := ?k'\<rparr>) = caller_caps st @ [i]" by (simp add: caller_caps_def)
    then show ?thesis
      using Some resolved_snoc [of "cap_store (k_caps ?k)" i "caller_caps st" cap, OF fresh]
      by (simp add: set_eq_iff held_iff cs del: set_append fun_upd_apply)
  qed
  ultimately show ?thesis by blast
qed

lemma auto_grant_held:
  assumes "caps_ok (k_caps (st_k st))" and "0 < cap_room (k_caps (st_k st))" and "cap_type \<in> {0, 1, 2}"
  shows "\<exists>st'. auto_grant (st_pid st) cap_type detail st = Done (Inr 0, st') \<and>
    held st' = (if agents (k_registry (st_k st)) (AgentId (st_pid st)) = None then held st
                else insert (requested cap_type detail) (held st))"
proof -
  obtain k' where g: "k_grant (requested cap_type detail) (st_pid st) (st_k st) = Done ((), k')"
    and h: "held (st\<lparr>st_k := k'\<rparr>) = (if agents (k_registry (st_k st)) (AgentId (st_pid st)) = None then held st
                else insert (requested cap_type detail) (held st))"
    using k_grant_held [OF assms(1,2)] by blast
  have "held (st\<lparr>st_k := k_serial line k'\<rparr>) = held (st\<lparr>st_k := k'\<rparr>)" for line
    by (simp add: held_def caller_caps_def)
  then show ?thesis
    using assms(3) g h by (auto simp: auto_grant_def requested_def host_eval host_serial_Done Let_def)
qed

text \<open>What a request does before the grant: a log line and a message to the supervisor.\<close>

lemma request_capability_eq:
  assumes "st_mem st = Some m" and "if 0 < len then readable E st ptr len buf else buf = []"
  shows "\<exists>st1. request_capability E cap_type ptr len st = auto_grant (st_pid st) cap_type (unwrap_or (from_utf8 buf) []) st1 \<and>
    st_pid st1 = st_pid st \<and> k_caps (st_k st1) = k_caps (st_k st) \<and> k_registry (st_k st1) = k_registry (st_k st)"
proof (cases "0 < len")
  case True
  then have "readable E st ptr len buf" using assms(2) by simp
  then have "alloc_zeroed E (unat len) st = Done (Inr (), st)"
    "guest_read E ptr (unat len) err st = Done (Inr buf, st)" for err
    by (auto simp: readable_def alloc_zeroed_def guest_read_def host_eval)
  then show ?thesis
    using True assms(1)
    by (simp add: request_capability_def host_eval host_steps k_send_def Let_def case_prod_unfold)
      (rule exI, rule conjI, rule refl, simp)
next
  case False
  then have "len = 0" by (simp add: word_gt_0)
  then show ?thesis
    using assms
    by (simp add: request_capability_def alloc_zeroed_def host_eval host_steps k_send_def Let_def case_prod_unfold)
      (rule exI, rule conjI, rule refl, simp)
qed

section \<open>Allocation\<close>

lemma guest_buffer_alloc_fails:
  "unat len \<noteq> 0 \<Longrightarrow> \<not> alloc_ok E (unat len) \<Longrightarrow> guest_buffer E ptr len err st = Panic AllocError"
  by (simp add: guest_buffer_def alloc_zeroed_def host_eval)

text \<open>The lengths of the buffers a host call may ask the allocator for, as the guest names them.\<close>

fun buffers :: "host_call \<Rightarrow> usize list" where
  "buffers (DebugLog ptr len) = [unat len]"
| "buffers (SendIpc target ptr len) = [unat len]"
| "buffers (TcpRequest ip_ptr port ptr len) = [unat len]"
| "buffers (ResolveDns ptr len out) = [unat len]"
| "buffers (FileRead ptr len out out_len) = [unat len]"
| "buffers (FileWrite ptr len dat dat_len) = [unat len, unat dat_len]"
| "buffers (FileList ptr len out out_len) = [unat len]"
| "buffers GetTime = []"
| "buffers GetUptimeMs = []"
| "buffers (RequestCapability ty ptr len) = [unat len]"

definition served :: "('h, 'i, 's, 'k, 'm) host_env \<Rightarrow> host_call \<Rightarrow> bool" where
  "served E c \<longleftrightarrow> (\<forall>n \<in> set (buffers c). n = 0 \<or> alloc_ok E n)"

text \<open>A call whose buffers are served does not see what else the allocator can serve.\<close>

lemma alloc_cong:
  "n = 0 \<or> alloc_ok E n \<Longrightarrow> alloc_zeroed E n = alloc_zeroed (E\<lparr>alloc_ok := (\<lambda>_. True)\<rparr>) n"
  "unat len = 0 \<or> alloc_ok E (unat len) \<Longrightarrow> guest_buffer E ptr len err = guest_buffer (E\<lparr>alloc_ok := (\<lambda>_. True)\<rparr>) ptr len err"
  "guest_read E ptr n err = guest_read (E\<lparr>alloc_ok := (\<lambda>_. True)\<rparr>) ptr n err"
  "guest_write E ptr bytes err = guest_write (E\<lparr>alloc_ok := (\<lambda>_. True)\<rparr>) ptr bytes err"
  by (auto simp: alloc_zeroed_def guest_buffer_def guest_read_def guest_write_def)

lemma host_function_served:
  assumes "served E c"
  shows "host_function E c = host_function (E\<lparr>alloc_ok := (\<lambda>_. True)\<rparr>) c"
proof -
  note defs = debug_log_def send_ipc_def tcp_request_def resolve_dns_def file_read_def file_write_def file_list_def
    get_time_def request_capability_def
  show ?thesis
    using assms
    by (cases c) (simp_all add: defs served_def alloc_cong [where E = E] cong: if_cong option.case_cong)
qed

section \<open>Totality\<close>

text \<open>The machine below the kernel behaves, and reading the clock does not disturb the card.\<close>

definition platform_laws :: "('h, 'i, 's, 'k) platform \<Rightarrow> u16 \<Rightarrow> (usize \<Rightarrow> 'h \<Rightarrow> bool) \<Rightarrow> bool" where
  "platform_laws pf base J \<longleftrightarrow>
     card_follows pf base J \<and> frames_within_mtu (stack pf) \<and> recv_fits (stack pf) \<and>
     (\<forall>off hw v. J off hw \<longrightarrow> J off (outb (ports pf) 0x70 v hw) \<and> J off (snd (inb (ports pf) 0x71 hw)))"

lemma platform_lawsD:
  assumes "platform_laws pf base J"
  shows "card_follows pf base J" "frames_within_mtu (stack pf)" "recv_fits (stack pf)"
    "J off hw \<Longrightarrow> J off (outb (ports pf) 0x70 v hw)" "J off hw \<Longrightarrow> J off (snd (inb (ports pf) 0x71 hw))"
  using assms by (simp_all add: platform_laws_def)

definition net_ready :: "u16 \<Rightarrow> (usize \<Rightarrow> 'h \<Rightarrow> bool) \<Rightarrow> ('i, 's) network_stack option \<Rightarrow> 'h \<Rightarrow> bool" where
  "net_ready base J g hw \<longleftrightarrow> (case g of None \<Rightarrow> True | Some net \<Rightarrow> net_ok J base net hw)"

definition kernel_ready :: "u16 \<Rightarrow> (usize \<Rightarrow> 'h \<Rightarrow> bool) \<Rightarrow> ('i, 's, 'h) kernel \<Rightarrow> bool" where
  "kernel_ready base J k \<longleftrightarrow> kernel_ok k \<and> net_ready base J (k_net k) (k_hw k)"

text \<open>The one way to hang: a poll of the interface, of a card that is there.\<close>

definition hangs :: "('h, 'i, 's, 'k) platform \<Rightarrow> (usize \<Rightarrow> 'h \<Rightarrow> bool) \<Rightarrow> panic \<Rightarrow> bool" where
  "hangs pf J p \<longleftrightarrow> p = Hang \<and> poll_stuck pf \<and> (\<exists>off hw. J off hw)"

text \<open>A kernel without a network stack is one whose card, if any, is in no state at all.\<close>

lemma platform_laws_offline: "platform_laws pf base J \<Longrightarrow> platform_laws pf base (\<lambda>_ _. False)"
  by (simp add: platform_laws_def card_follows_def)

lemma kernel_ready_offline: "kernel_ready base (\<lambda>_ _. False) k \<longleftrightarrow> kernel_ok k \<and> k_net k = None"
  by (auto simp: kernel_ready_def net_ready_def net_ok_def split: option.splits)

lemma hangs_offline [simp]: "\<not> hangs pf (\<lambda>_ _. False) p"
  by (simp add: hangs_def)

lemma net_ok_update: "net_ok J base (net\<lparr>iface := i\<rparr>) hw = net_ok J base net hw"
  "net_ok J base (net\<lparr>sockets := s\<rparr>) hw = net_ok J base net hw"
  by (simp_all add: net_ok_def)

lemma op_keepsI: "(\<And>k. I k \<Longrightarrow> (\<exists>x k'. F k = Done (x, k') \<and> I k') \<or> (\<exists>p. F k = Panic p \<and> b p)) \<Longrightarrow> op_keeps b I F"
  unfolding op_keeps_def by fastforce

lemma op_keeps_mono: "op_keeps b I F \<Longrightarrow> (\<And>p. b p \<Longrightarrow> b' p) \<Longrightarrow> op_keeps b' I F"
  unfolding op_keeps_def by (fastforce split: outcome.splits)

lemma tcp_syn_ready:
  assumes "platform_laws pf base J"
  shows "op_keeps (hangs pf J) (kernel_ready base J) (tcp_syn pf ip port)"
proof (rule op_keepsI)
  fix k :: "('b, 'c, 'a) kernel" assume k: "kernel_ready base J k"
  let ?goal = "(\<exists>x k'. tcp_syn pf ip port k = Done (x, k') \<and> kernel_ready base J k') \<or> (\<exists>p. tcp_syn pf ip port k = Panic p \<and> hangs pf J p)"
  show ?goal
  proof (cases "k_net k")
    case None
    then show ?thesis using k by (auto simp: tcp_syn_def)
  next
    case (Some net)
    obtain sock i where conn: "tcp_connect (stack pf) (iface net) (ip, port) 49152 = (sock, i)" by fastforce
    have ok: "net_ok J base net (k_hw k)" using k Some by (simp add: kernel_ready_def net_ready_def)
    show ?thesis
    proof (cases sock)
      case None
      then show ?thesis using Some conn k ok
        by (auto simp: tcp_syn_def kernel_ready_def net_ready_def kernel_ok_def net_ok_update)
    next
      case (Some socket)
      obtain h s where add: "sockets_add (stack pf) socket (sockets net) = (h, s)" by fastforce
      have "net_ok J base (net\<lparr>iface := i, sockets := s\<rparr>) (k_hw k)" using ok by (simp add: net_ok_update)
      from iface_poll_ok [OF platform_lawsD(1,2) [OF assms] this, of 1] show ?thesis
      proof (elim disjE exE conjE)
        fix net' hw' assume "iface_poll pf 1 (net\<lparr>iface := i, sockets := s\<rparr>) (k_hw k) = Done (net', hw')" "net_ok J base net' hw'"
        then show ?thesis using \<open>k_net k = Some net\<close> Some conn add k
          by (auto simp: tcp_syn_def kernel_ready_def net_ready_def kernel_ok_def net_ok_update)
      next
        assume "iface_poll pf 1 (net\<lparr>iface := i, sockets := s\<rparr>) (k_hw k) = Panic Hang" "poll_stuck pf"
        then show ?thesis using \<open>k_net k = Some net\<close> Some conn add ok
          by (auto simp: tcp_syn_def hangs_def net_ok_def)
      qed
    qed
  qed
qed

lemma kernel_resolve_ready:
  assumes "platform_laws pf base J"
  shows "op_keeps (hangs pf J) (kernel_ready base J) (kernel_resolve pf domain)"
proof (rule op_keepsI)
  fix k :: "('b, 'c, 'a) kernel" assume k: "kernel_ready base J k"
  then have net: "case k_net k of None \<Rightarrow> True | Some net \<Rightarrow> net_ok J base net (k_hw k)" by (simp add: kernel_ready_def net_ready_def)
  let ?r = "resolve pf domain (k_net k) (k_hw k) (k_console k)"
  from resolve_ok [OF platform_lawsD(1-3) [OF assms] net, of domain "k_console k"]
  consider r g hw con where "?r = Done (r, g, hw, con)" "net_ready base J g hw" | "?r = Panic Hang" "k_net k \<noteq> None" "poll_stuck pf"
    unfolding net_ready_def by blast
  then show "(\<exists>x k'. kernel_resolve pf domain k = Done (x, k') \<and> kernel_ready base J k') \<or>
      (\<exists>p. kernel_resolve pf domain k = Panic p \<and> hangs pf J p)"
  proof cases
    case 1
    then have "console_ok con" using resolve_console [OF 1(1)] k by (simp add: kernel_ready_def kernel_ok_def)
    then show ?thesis using 1 k by (simp add: kernel_resolve_def kernel_ready_def kernel_ok_def)
  next
    case 2
    then show ?thesis using net by (fastforce simp: kernel_resolve_def hangs_def net_ok_def)
  qed
qed

lemma k_time_ready:
  assumes "platform_laws pf base J"
  shows "op_keeps b (kernel_ready base J) (k_time pf)"
proof (rule op_keepsI, rule disjI1)
  fix k :: "('b, 'c, 'a) kernel" assume k: "kernel_ready base J k"
  have keep: "J off (snd (read_cmos (ports pf) reg hw))" if "J off hw" for off reg hw
    using platform_lawsD(4,5) [OF assms] that by (simp add: read_cmos_def)
  obtain t hw where run: "unix_timestamp (ports pf) (k_hw k) = Done (t, hw)" and J: "\<And>off. J off (k_hw k) \<Longrightarrow> J off hw"
    using keep by (auto simp: unix_timestamp_def timestamp_of_registers_eq Let_def case_prod_unfold)
  have "net_ready base J (k_net k) hw"
    using k J by (auto simp: kernel_ready_def net_ready_def net_ok_def split: option.splits)
  then show "\<exists>x k'. k_time pf k = Done (x, k') \<and> kernel_ready base J k'"
    using run k by (simp add: k_time_def kernel_ready_def kernel_ok_def)
qed

lemma println_ready:
  "op_keeps b (kernel_ready base J) (\<lambda>k. map_outcome (\<lambda>con. ((), k\<lparr>k_console := con\<rparr>)) (println line (k_console k)))"
proof (rule op_keepsI, rule disjI1)
  fix k :: "('a, 'b, 'c) kernel" assume k: "kernel_ready base J k"
  then obtain con where "println line (k_console k) = Done con" "console_ok con"
    using println_total [of "k_console k" line] by (auto simp: kernel_ready_def kernel_ok_def)
  then show "\<exists>x k'. map_outcome (\<lambda>con. ((), k\<lparr>k_console := con\<rparr>)) (println line (k_console k)) = Done (x, k') \<and> kernel_ready base J k'"
    using k by (simp add: kernel_ready_def kernel_ok_def)
qed

lemma ready_invariant:
  assumes "platform_laws (platform_of E) base J" and "b AllocError \<or> (\<forall>n. alloc_ok E n)"
  shows "host_invariant E b pid (kernel_ready base J)"
proof
  fix k :: "('b, 'c, 'a) kernel"
  assume k: "kernel_ready base J k"
  then have ok: "kernel_ok k" by (simp add: kernel_ready_def)
  show "kernel_ready base J (k_serial line k)" for line
    using k wf.serial [OF ok, of line] by (simp add: kernel_ready_def)
  show "kernel_ready base J (k\<lparr>k_ipc := snd (send_message (k_caps k) (ProcessId pid) recipient dat [] (k_ipc k))\<rparr>)" for recipient dat
    using k wf.send [OF ok, of pid recipient dat] by (simp add: kernel_ready_def)
  show "kernel_ready base J (k\<lparr>k_vfs := snd (write_file path dat pid (k_vfs k))\<rparr>)" for path dat
    using k wf.store [OF ok, of path dat pid] by (simp add: kernel_ready_def)
  show "kernel_ready base J (k\<lparr>k_uptime := t\<rparr>)" for t
    using k wf.timer [OF ok, of t] by (simp add: kernel_ready_def)
qed (use assms in \<open>auto simp: println_ready k_time_ready\<close>)

lemma ready_invariant_net:
  assumes "platform_laws (platform_of E) base J" and "b AllocError \<or> (\<forall>n. alloc_ok E n)"
    and "\<And>p. hangs (platform_of E) J p \<Longrightarrow> b p"
  shows "host_invariant_net E b pid (kernel_ready base J)"
proof (rule host_invariant_net.intro [OF ready_invariant [where b = b, OF assms(1,2)]], unfold_locales)
  show "op_keeps b (kernel_ready base J) (tcp_syn (platform_of E) ip port)" for ip port
    using tcp_syn_ready [OF assms(1)] assms(3) by (rule op_keeps_mono)
  show "op_keeps b (kernel_ready base J) (kernel_resolve (platform_of E) domain)" for domain
    using kernel_resolve_ready [OF assms(1)] assms(3) by (rule op_keeps_mono)
qed

lemma sat_if: "(c \<Longrightarrow> sat b m Q st) \<Longrightarrow> (\<not> c \<Longrightarrow> sat b m' Q st) \<Longrightarrow> sat b (if c then m else m') Q st"
  by simp

lemma k_grant_ready:
  assumes "kernel_ready base J k" and "0 < cap_room (k_caps k)"
  shows "\<exists>k'. k_grant cap pid k = Done ((), k') \<and> kernel_ready base J k'"
proof -
  have ok: "kernel_ok k" using assms(1) by (simp add: kernel_ready_def)
  obtain i cs where c: "create_capability cap (k_caps k) = Done (i, cs)"
    using capreg.alloc_total assms(2) ok by (auto simp: kernel_ok_def) blast
  then show ?thesis
    using assms(1) caps_ok_create [OF _ c] registry_ok_grant
    by (simp add: k_grant_def kernel_ready_def kernel_ok_def)
qed

lemma auto_grant_ready:
  assumes "kernel_ready base J (st_k st)" and "0 < cap_room (k_caps (st_k st))"
  shows "sat b (auto_grant pid cap_type detail) (\<lambda>_ st'. kernel_ready base J (st_k st')) st"
proof -
  have serial: "kernel_ready base J (k_serial line k) = kernel_ready base J k" for line k
    by (simp add: kernel_ready_def kernel_ok_def)
  have grant: "sat b (hbind (hkernel (k_grant cap pid)) (\<lambda>_. hbind (host_serial line) (\<lambda>_. hreturn x)))
      (\<lambda>_ st'. kernel_ready base J (st_k st')) st" for cap line x
    using k_grant_ready [OF assms, of cap pid] by (auto simp: sat_simps serial)
  have log: "sat b (hbind (host_serial line) (\<lambda>_. hreturn x)) (\<lambda>_ st'. kernel_ready base J (st_k st')) st" for line x
    using assms(1) by (simp add: sat_simps serial)
  show ?thesis unfolding auto_grant_def Let_def by (intro sat_if grant log)
qed

lemma request_capability_ready:
  assumes "kernel_ready base J (st_k st)" and "0 < cap_room (k_caps (st_k st))" and "b AllocError \<or> (\<forall>n. alloc_ok E n)"
  shows "sat b (request_capability E cap_type ptr len) (\<lambda>_ st'. kernel_ready base J (st_k st')) st"
proof -
  let ?k = "\<lambda>line src dat. (k_serial line (st_k st))\<lparr>k_ipc := snd (send_message (k_caps (st_k st)) src KERNEL_SUPERVISOR_PID dat [] (k_ipc (st_k st)))\<rparr>"
  have "kernel_ready base J (?k line src dat)" "k_caps (?k line src dat) = k_caps (st_k st)" for line src dat
    using assms(1) by (simp_all add: kernel_ready_def kernel_ok_def ipc_ok_send)
  then have "sat b (auto_grant pid cap_type detail) (\<lambda>_ st'. kernel_ready base J (st_k st')) (st\<lparr>st_k := ?k line src dat\<rparr>)"
    for pid detail line src dat
    using assms(2) by (intro auto_grant_ready) simp_all
  then show ?thesis
    using assms(1,3)
    by (auto simp: request_capability_def sat_simps k_send_def Let_def case_prod_unfold split: option.split)
qed

text \<open>Only two host functions poll the interface.\<close>

fun networks :: "host_call \<Rightarrow> bool" where
  "networks (TcpRequest ip_ptr port ptr len) = True"
| "networks (ResolveDns ptr len out) = True"
| "networks _ = False"

lemma polls_need_network:
  assumes "networks c" and "\<And>x. host_function E c st \<noteq> Done x"
  shows "may_network st"
proof (rule ccontr)
  assume no: "\<not> may_network st"
  have "\<exists>x. host_function E c st = Done x"
  proof (cases "st_mem st")
    case None
    then have "get_memory st = Done (Inl (HostError ''Failed to find 'memory' export''), st)" by (simp add: get_memory_def host_eval)
    then show ?thesis using assms(1) by (cases c) (simp_all add: hmap_def tcp_request_def resolve_dns_def host_eval)
  next
    case (Some m)
    then show ?thesis using assms(1) no by (cases c) (simp_all add: hmap_def network_denied denied_def host_eval)
  qed
  then show False using assms(2) by blast
qed

lemma host_function_ready:
  assumes "platform_laws (platform_of E) base J" and "b AllocError \<or> (\<forall>n. alloc_ok E n)"
    and "\<And>p. networks c \<Longrightarrow> hangs (platform_of E) J p \<Longrightarrow> b p"
    and "kernel_ready base J (st_k st)" and "0 < cap_room (k_caps (st_k st))"
  shows "sat b (host_function E c) (\<lambda>_ st'. kernel_ready base J (st_k st')) st"
proof (cases "escalates c")
  case True
  then obtain ty ptr len where c: "c = RequestCapability ty ptr len" by (auto simp: escalates_def split: host_call.splits)
  show ?thesis
    using request_capability_ready [where b = b, OF assms(4,5,2), of ty ptr len]
    by (simp add: c hmap_def sat_simps) (erule sat_mono, simp add: sat_simps split: sum.split)
next
  case False
  let ?P = "\<lambda>st'. st_pid st' = st_pid st \<and> kernel_ready base J (st_k st')"
  have "maintains b ?P (host_function E c)"
  proof (cases "networks c")
    case True
    then have "host_invariant_net E b (st_pid st) (kernel_ready base J)"
      using assms(3) by (intro ready_invariant_net [where b = b, OF assms(1,2)]) blast
    from host_invariant_net.inv_tcp_request [OF this] host_invariant_net.inv_resolve_dns [OF this] show ?thesis
      using True by (cases c) (auto simp: hmap_def intro!: maintains_intros)
  next
    case False
    with \<open>\<not> escalates c\<close> host_invariant.inv_local_calls [OF ready_invariant [where b = b, OF assms(1,2)], of "st_pid st"] show ?thesis
      by (cases c) (auto simp: hmap_def escalates_def intro!: maintains_intros)
  qed
  then have "sat b (host_function E c) (\<lambda>_. ?P) st" using assms(4) by (simp add: maintains_def)
  then show ?thesis by (rule sat_mono) simp
qed

lemma host_function_ready_served:
  assumes "platform_laws (platform_of E) base J" and "served E c"
    and "kernel_ready base J (st_k st)" and "0 < cap_room (k_caps (st_k st))"
  shows "sat (\<lambda>p. networks c \<and> hangs (platform_of E) J p) (host_function E c) (\<lambda>_ st'. kernel_ready base J (st_k st')) st"
proof -
  let ?E = "E\<lparr>alloc_ok := (\<lambda>_. True)\<rparr>" and ?Q = "\<lambda>_ st'. kernel_ready base J (st_k st')"
  have "sat (\<lambda>p. networks c \<and> hangs (platform_of E) J p) (host_function ?E c) ?Q st"
    by (rule host_function_ready) (use assms in simp_all)
  then show ?thesis unfolding host_function_served [OF assms(2)] .
qed

end
