(* ===== verification/Wasm_Runtime.thy ===== *)
theory Wasm_Runtime
  imports Host_Calls
begin

text \<open>
  \<^verbatim>\<open>WasmRuntime::execute_module\<close> of \<^verbatim>\<open>src/wasm.rs\<close>: compile, instantiate, run the start section, look the
  entry function up and call it. The interpreter wasmi is a record of these operations over
  unspecified types of modules and memories; a running guest is given as what it does next after the
  answers it has had from the host so far, which may be to compute for ever. Nothing bounds a guest's running time in
  the code; in the model a call is given a number of host calls and is a hang beyond it. The names given to the linker
  are all different, so \<^verbatim>\<open>linker.define\<close> does not fail and is not modelled.
\<close>

section \<open>The interpreter as a parameter\<close>

text \<open>A guest leaves its memory in some state and calls the host, traps, or returns; or it loops without any of these.\<close>

datatype 'm guest_action =
    GuestCall "'m option" host_call
  | GuestTrap "'m option" string
  | GuestReturn "'m option"
  | GuestLoop

type_synonym 'm guest_history = "(host_value \<times> 'm option) list"

record ('w, 'm) wasmi =
  module_new :: "u8 list \<Rightarrow> string + 'w"
  instantiate :: "'w \<Rightarrow> string + 'm option"
  start_section :: "'w \<Rightarrow> 'm guest_history \<Rightarrow> 'm guest_action"
  has_func :: "'w \<Rightarrow> string \<Rightarrow> bool"
  signature_error :: "'w \<Rightarrow> string \<Rightarrow> string option"
  func_body :: "'w \<Rightarrow> string \<Rightarrow> 'm guest_history \<Rightarrow> 'm guest_action"
  show_trap :: "string \<Rightarrow> string"

section \<open>Running a guest\<close>

text \<open>\<^verbatim>\<open>HostError\<close> displays as its text; \<open>show_trap\<close> is what wasmi makes of it.\<close>

fun trap_text :: "trap \<Rightarrow> string" where
  "trap_text (HostError s) = s"

fun run_guest ::
    "('h, 'i, 's, 'k, 'm) host_env \<Rightarrow> ('w, 'm) wasmi \<Rightarrow> ('m guest_history \<Rightarrow> 'm guest_action) \<Rightarrow> nat \<Rightarrow> 'm guest_history
      \<Rightarrow> ('m, 'i, 's, 'h) session \<Rightarrow> ((string + 'm guest_history) \<times> ('m, 'i, 's, 'h) session) outcome" where
  "run_guest E W body 0 hist st = Panic Hang"
| "run_guest E W body (Suc n) hist st =
     (case body hist of
        GuestLoop \<Rightarrow> Panic Hang
      | GuestReturn m \<Rightarrow> Done (Inr hist, st\<lparr>st_mem := m\<rparr>)
      | GuestTrap m msg \<Rightarrow> Done (Inl (show_trap W msg), st\<lparr>st_mem := m\<rparr>)
      | GuestCall m c \<Rightarrow>
          obind (host_function E c (st\<lparr>st_mem := m\<rparr>)) (\<lambda>(r, st).
          case r of
            Inl t \<Rightarrow> Done (Inl (show_trap W (trap_text t)), st)
          | Inr v \<Rightarrow> run_guest E W body n (hist @ [(v, st_mem st)]) st))"

text \<open>The entry: \<^verbatim>\<open>_start\<close>, or else \<^verbatim>\<open>main\<close>.\<close>

definition entry_func :: "('w, 'm) wasmi \<Rightarrow> 'w \<Rightarrow> string option" where
  "entry_func W w =
     (if has_func W w ''_start'' then Some ''_start''
      else if has_func W w ''main'' then Some ''main'' else None)"

definition call_entry ::
    "('h, 'i, 's, 'k, 'm) host_env \<Rightarrow> ('w, 'm) wasmi \<Rightarrow> nat \<Rightarrow> 'w \<Rightarrow> 'm guest_history \<Rightarrow> ('m, 'i, 's, 'h) session
      \<Rightarrow> ((string + unit) \<times> ('m, 'i, 's, 'h) session) outcome" where
  "call_entry E W fuel w hist st =
     (case entry_func W w of
        None \<Rightarrow> Done (Inl ''No _start or main function found in module'', st)
      | Some f \<Rightarrow>
          (case signature_error W w f of
             Some e \<Rightarrow> Done (Inl (''Start func has wrong signature: '' @ e), st)
           | None \<Rightarrow>
               map_outcome (\<lambda>(r, st). (case r of Inl e \<Rightarrow> Inl (''Execution failed: '' @ e) | Inr _ \<Rightarrow> Inr (), st))
                 (run_guest E W (func_body W w f) fuel hist st)))"

definition execute_module ::
    "('h, 'i, 's, 'k, 'm) host_env \<Rightarrow> ('w, 'm) wasmi \<Rightarrow> nat \<Rightarrow> u8 list \<Rightarrow> u64 \<Rightarrow> ('i, 's, 'h) kernel
      \<Rightarrow> ((string + unit) \<times> ('i, 's, 'h) kernel) outcome" where
  "execute_module E W fuel wasm_bytes pid k =
     (let k = k_serial (''[WASM] Engine compiling module of length: '' @ fmt_dec (length wasm_bytes)) k in
      case module_new W wasm_bytes of
        Inl e \<Rightarrow> Done (Inl (''Failed to compile module: '' @ e), k)
      | Inr w \<Rightarrow>
          (case instantiate W w of
             Inl e \<Rightarrow> Done (Inl (''Failed to instantiate module: '' @ e), k)
           | Inr m \<Rightarrow>
               map_outcome (\<lambda>(r, st). (r, st_k st))
                 (obind (run_guest E W (start_section W w) fuel [] \<lparr>st_pid = pid, st_mem = m, st_k = k\<rparr>) (\<lambda>(r, st).
                  case r of
                    Inl e \<Rightarrow> Done (Inl (''Failed to start module: '' @ e), st)
                  | Inr hist \<Rightarrow> call_entry E W fuel w hist st))))"

section \<open>An execution is a run of the agent\<close>

lemma guest_run_append: "guest_run E st cs st1 \<Longrightarrow> guest_run E st1 cs' st2 \<Longrightarrow> guest_run E st (cs @ cs') st2"
  by (induction rule: guest_run.induct) (auto intro: guest_run.more)

lemma guest_run_call:
  assumes "host_function E c (st\<lparr>st_mem := m\<rparr>) = Done (r, st')"
  shows "guest_run E st [c] st'"
proof -
  have "host_function (E\<lparr>alloc_ok := alloc_ok E\<rparr>) c (st\<lparr>st_mem := m\<rparr>) = Done (r, st')" using assms by simp
  from guest_step.call [OF this] have "guest_run E (st\<lparr>st_mem := m\<rparr>) [c] st'" by (rule guest_run_one)
  with guest_run_append [OF guest_run_one [OF guest_step.compute]] show ?thesis by fastforce
qed

lemma run_guest_is_run: "run_guest E W body n hist st = Done (r, st') \<Longrightarrow> \<exists>cs. guest_run E st cs st'"
proof (induction n arbitrary: hist st)
  case (Suc n)
  show ?case
  proof (cases "body hist")
    case (GuestCall m c)
    with Suc.prems obtain q st1 where c: "host_function E c (st\<lparr>st_mem := m\<rparr>) = Done (q, st1)"
      and rest: "(case q of Inl t \<Rightarrow> Done (Inl (show_trap W (trap_text t)), st1)
        | Inr v \<Rightarrow> run_guest E W body n (hist @ [(v, st_mem st1)]) st1) = Done (r, st')"
      by (auto simp: obind_Done_iff)
    note run = guest_run_call [OF c]
    show ?thesis
    proof (cases q)
      case (Inl t)
      with rest run show ?thesis by auto
    next
      case (Inr v)
      then obtain cs where "guest_run E st1 cs st'" using Suc.IH rest by auto
      then show ?thesis using guest_run_append [OF run] by blast
    qed
  qed (use Suc.prems guest_run_one [OF guest_step.compute] in auto)
qed simp

lemma call_entry_is_run: "call_entry E W fuel w hist st = Done (r, st') \<Longrightarrow> \<exists>cs. guest_run E st cs st'"
  by (auto simp: call_entry_def map_outcome_Done_iff split: option.splits dest: run_guest_is_run intro: guest_run.stop)

text \<open>Executing a module is a run of a session of its process, after one line on the serial port.\<close>

lemma execute_module_is_run:
  assumes "execute_module E W fuel bytes pid k = Done (r, k')"
  shows "\<exists>line m cs st'. guest_run E \<lparr>st_pid = pid, st_mem = m, st_k = k_serial line k\<rparr> cs st' \<and> st_k st' = k'"
proof -
  define k1 where "k1 = k_serial (''[WASM] Engine compiling module of length: '' @ fmt_dec (length bytes)) k"
  note run = assms [unfolded execute_module_def Let_def, folded k1_def]
  have "\<exists>m cs st'. guest_run E \<lparr>st_pid = pid, st_mem = m, st_k = k1\<rparr> cs st' \<and> st_k st' = k'"
  proof (cases "\<exists>w m. module_new W bytes = Inr w \<and> instantiate W w = Inr m")
    case True
    then obtain w m where w: "module_new W bytes = Inr w" "instantiate W w = Inr m" by blast
    let ?st = "\<lparr>st_pid = pid, st_mem = m, st_k = k1\<rparr>"
    obtain q st1 st2 where q: "run_guest E W (start_section W w) fuel [] ?st = Done (q, st1)"
      and rest: "(case q of Inl e \<Rightarrow> Done (Inl (''Failed to start module: '' @ e), st1)
        | Inr hist \<Rightarrow> call_entry E W fuel w hist st1) = Done (r, st2)" and k': "k' = st_k st2"
      using run w by (auto simp: obind_Done_iff map_outcome_Done_iff)
    obtain cs where start: "guest_run E ?st cs st1" using run_guest_is_run [OF q] by blast
    have "\<exists>cs. guest_run E ?st cs st2"
      using rest start by (auto split: sum.splits dest!: call_entry_is_run intro: guest_run_append)
    then show ?thesis using k' by blast
  next
    case False
    then have "k' = k1"
      using run by (auto split: sum.splits)
    moreover have "st_k \<lparr>st_pid = pid, st_mem = None, st_k = k1\<rparr> = k1" by simp
    ultimately show ?thesis using guest_run.stop by blast
  qed
  then show ?thesis using k1_def by blast
qed

text \<open>So every invariant of the host functions is an invariant of the execution of modules.\<close>

lemma execute_module_inv:
  assumes I: "host_invariant_grant E any_panic pid I" and "execute_module E W fuel bytes pid k = Done (r, k')" and "I k"
  shows "I k'"
proof -
  obtain line m cs st' where run: "guest_run E \<lparr>st_pid = pid, st_mem = m, st_k = k_serial line k\<rparr> cs st'"
    and k': "st_k st' = k'"
    using execute_module_is_run [OF assms(2)] by blast
  have "I (k_serial line k)"
    using I assms(3) by (simp add: host_invariant_grant_def host_invariant_net_def host_invariant_def)
  then show ?thesis using guest_run_inv [OF _ run] I k' by auto
qed

section \<open>Modules that end\<close>

text \<open>What a module may do after \<open>hist\<close> for its execution to end: call the host, if it has made fewer than \<open>n\<close>
  calls and names only buffers the allocator can serve, trap or return.\<close>

fun tame :: "('h, 'i, 's, 'k, 'm) host_env \<Rightarrow> nat \<Rightarrow> 'm guest_history \<Rightarrow> 'm guest_action \<Rightarrow> bool" where
  "tame E n hist (GuestCall m c) \<longleftrightarrow> length hist < n \<and> served E c"
| "tame E n hist (GuestTrap m msg) \<longleftrightarrow> True"
| "tame E n hist (GuestReturn m) \<longleftrightarrow> True"
| "tame E n hist GuestLoop \<longleftrightarrow> False"

definition well_behaved :: "('h, 'i, 's, 'k, 'm) host_env \<Rightarrow> ('w, 'm) wasmi \<Rightarrow> nat \<Rightarrow> u8 list \<Rightarrow> bool" where
  "well_behaved E W n bytes \<longleftrightarrow>
     (\<forall>w hist f. module_new W bytes = Inr w \<longrightarrow>
        tame E n hist (start_section W w hist) \<and> tame E n hist (func_body W w f hist))"

text \<open>An outcome is a result that satisfies \<open>Q\<close> or a panic that \<open>b\<close> accepts.\<close>

definition ends :: "(panic \<Rightarrow> bool) \<Rightarrow> ('a \<Rightarrow> bool) \<Rightarrow> 'a outcome \<Rightarrow> bool" where
  "ends b Q m = (case m of Done x \<Rightarrow> Q x | Panic p \<Rightarrow> b p)"

lemma ends_simps [simp]: "ends b Q (Done x) = Q x" "ends b Q (Panic p) = b p"
  by (simp_all add: ends_def)

lemma ends_obind: "ends b Q m \<Longrightarrow> (\<And>x. Q x \<Longrightarrow> ends b R (f x)) \<Longrightarrow> ends b R (obind m f)"
  by (cases m) simp_all

lemma ends_map_outcome: "ends b Q m \<Longrightarrow> (\<And>x. Q x \<Longrightarrow> R (f x)) \<Longrightarrow> ends b R (map_outcome f m)"
  by (cases m) simp_all

lemma ends_mono: "ends b Q m \<Longrightarrow> (\<And>x. Q x \<Longrightarrow> R x) \<Longrightarrow> ends b R m"
  by (cases m) simp_all

lemma ends_cases: "ends b Q m \<longleftrightarrow> (\<exists>x. m = Done x \<and> Q x) \<or> (\<exists>p. m = Panic p \<and> b p)"
  by (cases m) simp_all

text \<open>A host call uses up at most one capability identifier.\<close>

lemma k_grant_room:
  assumes "k_grant cap pid k = Done (x, k')" and "kernel_ok k"
  shows "cap_room (k_caps k) = Suc (cap_room (k_caps k'))"
  using k_grant_frame [OF assms(1)] assms(2) capreg.alloc_room by (auto simp: kernel_ok_def)

lemma auto_grant_room:
  assumes "kernel_ok (st_k st)"
  shows "sat any_panic (auto_grant pid cap_type detail) (\<lambda>_ st'. cap_room (k_caps (st_k st)) \<le> Suc (cap_room (k_caps (st_k st')))) st"
proof -
  have grant: "sat any_panic (hbind (hkernel (k_grant cap pid)) (\<lambda>_. hbind (host_serial line) (\<lambda>_. hreturn x)))
      (\<lambda>_ st'. cap_room (k_caps (st_k st)) \<le> Suc (cap_room (k_caps (st_k st')))) st" for cap line x
    using k_grant_room [OF _ assms] by (auto simp: sat_simps split: outcome.split)
  have log: "sat any_panic (hbind (host_serial line) (\<lambda>_. hreturn x))
      (\<lambda>_ st'. cap_room (k_caps (st_k st)) \<le> Suc (cap_room (k_caps (st_k st')))) st" for line x
    by (simp add: sat_simps)
  show ?thesis unfolding auto_grant_def Let_def by (intro sat_if grant log)
qed

lemma request_capability_room:
  assumes "kernel_ok (st_k st)"
  shows "sat any_panic (request_capability E cap_type ptr len)
    (\<lambda>_ st'. cap_room (k_caps (st_k st)) \<le> Suc (cap_room (k_caps (st_k st')))) st"
proof -
  let ?k = "\<lambda>line src dat. (k_serial line (st_k st))\<lparr>k_ipc := snd (send_message (k_caps (st_k st)) src KERNEL_SUPERVISOR_PID dat [] (k_ipc (st_k st)))\<rparr>"
  have "kernel_ok (?k line src dat)" "k_caps (?k line src dat) = k_caps (st_k st)" for line src dat
    using assms by (simp_all add: kernel_ok_def ipc_ok_send)
  then have "sat any_panic (auto_grant pid cap_type detail)
      (\<lambda>_ st'. cap_room (k_caps (st_k st)) \<le> Suc (cap_room (k_caps (st_k st')))) (st\<lparr>st_k := ?k line src dat\<rparr>)"
    for pid detail line src dat
    using auto_grant_room [of "st\<lparr>st_k := ?k line src dat\<rparr>"] by simp
  then show ?thesis
    by (auto simp: request_capability_def sat_simps k_send_def Let_def case_prod_unfold split: option.split)
qed

lemma host_function_room:
  assumes "host_function E c st = Done (r, st')" and "kernel_ok (st_k st)"
  shows "cap_room (k_caps (st_k st)) \<le> Suc (cap_room (k_caps (st_k st')))"
proof (cases "escalates c")
  case True
  then obtain ty ptr len where c: "c = RequestCapability ty ptr len" by (auto simp: escalates_def split: host_call.splits)
  have "sat any_panic (host_function E c) (\<lambda>_ st'. cap_room (k_caps (st_k st)) \<le> Suc (cap_room (k_caps (st_k st')))) st"
    using request_capability_room [OF assms(2), of E ty ptr len]
    by (simp add: c hmap_def sat_simps) (erule sat_mono, simp add: sat_simps split: sum.split)
  then show ?thesis using assms(1) by (rule sat_partialD)
next
  case False
  have "guest_run E st [c] st'" using guest_run_call [of E c "st_mem st" st] assms(1) by simp
  then have "within st st'" using False assms(2) by (intro guest_run_within) (auto simp: kernel_ok_def)
  then show ?thesis by (simp add: within_def)
qed

definition room_after :: "nat \<Rightarrow> string + 'm guest_history \<Rightarrow> nat" where
  "room_after n q = (case q of Inl _ \<Rightarrow> 0 | Inr hist \<Rightarrow> n - length hist)"

lemma room_after_simps [simp]: "room_after n (Inl e) = 0" "room_after n (Inr hist) = n - length hist"
  by (simp_all add: room_after_def)

text \<open>One host call, from a state with room for \<open>Suc r\<close> capabilities.\<close>

lemma host_call_ready:
  assumes "platform_laws (platform_of E) base J" and "served E c" and "kernel_ready base J (st_k st)"
    and "Suc r \<le> cap_room (k_caps (st_k st))"
  shows "ends (hangs (platform_of E) J) (\<lambda>(q, st'). kernel_ready base J (st_k st') \<and> r \<le> cap_room (k_caps (st_k st')))
    (host_function E c st)"
proof (cases "host_function E c st")
  case (Done x)
  obtain q st' where x: "x = (q, st')" by fastforce
  have "kernel_ready base J (st_k st')"
    using host_function_ready_served [OF assms(1-3)] assms(4) Done x by (simp add: sat_def)
  moreover have "r \<le> cap_room (k_caps (st_k st'))"
    using host_function_room [OF Done [unfolded x]] assms(3,4) by (simp add: kernel_ready_def)
  ultimately show ?thesis using Done x by simp
next
  case (Panic p)
  then show ?thesis using host_function_ready_served [OF assms(1-3)] assms(4) by (simp add: sat_def)
qed

lemma run_guest_ready:
  assumes laws: "platform_laws (platform_of E) base J" and tame: "\<And>hist. tame E n hist (body hist)"
    and "n - length hist < fuel" and "kernel_ready base J (st_k st)" and "n - length hist + r \<le> cap_room (k_caps (st_k st))"
  shows "ends (hangs (platform_of E) J)
    (\<lambda>(q, st'). kernel_ready base J (st_k st') \<and> room_after n q + r \<le> cap_room (k_caps (st_k st')))
    (run_guest E W body fuel hist st)"
  using assms(3-5)
proof (induction fuel arbitrary: hist st)
  case (Suc fuel)
  show ?case
  proof (cases "body hist")
    case (GuestCall m c)
    then have len: "length hist < n" "served E c" using tame [of hist] by simp_all
    have call: "ends (hangs (platform_of E) J)
        (\<lambda>(q, st'). kernel_ready base J (st_k st') \<and> n - Suc (length hist) + r \<le> cap_room (k_caps (st_k st')))
        (host_function E c (st\<lparr>st_mem := m\<rparr>))"
      using Suc.prems len by (intro host_call_ready [OF laws]) simp_all
    show ?thesis
      unfolding run_guest.simps GuestCall guest_action.case
      by (rule ends_obind [OF call])
        (use Suc.prems(1) len(1) in \<open>auto split: sum.split intro!: Suc.IH\<close>)
  next
    case GuestLoop
    then show ?thesis using tame [of hist] by simp
  qed (use Suc.prems in simp_all)
qed simp

lemma call_entry_ready:
  assumes "platform_laws (platform_of E) base J" and "\<And>f hist. tame E n hist (func_body W w f hist)" and "n < fuel"
    and "kernel_ready base J (st_k st)" and "n - length hist + r \<le> cap_room (k_caps (st_k st))"
  shows "ends (hangs (platform_of E) J) (\<lambda>(q, st'). kernel_ready base J (st_k st') \<and> r \<le> cap_room (k_caps (st_k st')))
    (call_entry E W fuel w hist st)"
proof (cases "\<exists>f. entry_func W w = Some f \<and> signature_error W w f = None")
  case True
  then obtain f where f: "entry_func W w = Some f" "signature_error W w f = None" by blast
  have "ends (hangs (platform_of E) J)
      (\<lambda>(q, st'). kernel_ready base J (st_k st') \<and> room_after n q + r \<le> cap_room (k_caps (st_k st')))
      (run_guest E W (func_body W w f) fuel hist st)"
    using assms(3-5) by (intro run_guest_ready [OF assms(1,2)]) simp_all
  then show ?thesis by (auto simp: call_entry_def f intro: ends_map_outcome)
next
  case False
  then have "\<exists>e. call_entry E W fuel w hist st = Done (Inl e, st)"
    by (auto simp: call_entry_def split: option.split)
  then show ?thesis using assms(4,5) by auto
qed

lemma execute_module_ready:
  assumes laws: "platform_laws (platform_of E) base J" and tame: "well_behaved E W n bytes" and "n < fuel"
    and "kernel_ready base J k" and "n + r \<le> cap_room (k_caps k)"
  shows "ends (hangs (platform_of E) J) (\<lambda>(q, k'). kernel_ready base J k' \<and> r \<le> cap_room (k_caps k'))
    (execute_module E W fuel bytes pid k)"
proof -
  define k1 where "k1 = k_serial (''[WASM] Engine compiling module of length: '' @ fmt_dec (length bytes)) k"
  have k1: "kernel_ready base J k1" "n + r \<le> cap_room (k_caps k1)"
    using assms(4,5) by (simp_all add: k1_def kernel_ready_def kernel_ok_def)
  show ?thesis
  proof (cases "\<exists>w m. module_new W bytes = Inr w \<and> instantiate W w = Inr m")
    case True
    then obtain w m where w: "module_new W bytes = Inr w" "instantiate W w = Inr m" by blast
    have body: "tame E n hist (start_section W w hist)" "tame E n hist (func_body W w f hist)" for hist f
      using tame w(1) by (simp_all add: well_behaved_def)
    have start: "ends (hangs (platform_of E) J)
        (\<lambda>(q, st'). kernel_ready base J (st_k st') \<and> room_after n q + r \<le> cap_room (k_caps (st_k st')))
        (run_guest E W (start_section W w) fuel [] \<lparr>st_pid = pid, st_mem = m, st_k = k1\<rparr>)"
      using assms(3) k1 by (intro run_guest_ready [OF laws body(1)]) simp_all
    have "ends (hangs (platform_of E) J) (\<lambda>(q, st'). kernel_ready base J (st_k st') \<and> r \<le> cap_room (k_caps (st_k st')))
        (obind (run_guest E W (start_section W w) fuel [] \<lparr>st_pid = pid, st_mem = m, st_k = k1\<rparr>) (\<lambda>(q, st).
           case q of Inl e \<Rightarrow> Done (Inl (''Failed to start module: '' @ e), st) | Inr hist \<Rightarrow> call_entry E W fuel w hist st))"
      by (rule ends_obind [OF start])
        (auto split: sum.split intro!: call_entry_ready [OF laws body(2) assms(3)])
    then show ?thesis
      unfolding execute_module_def Let_def k1_def [symmetric] w sum.case by (rule ends_map_outcome) auto
  next
    case False
    then have "\<exists>e. execute_module E W fuel bytes pid k = Done (Inl e, k1)"
      unfolding execute_module_def Let_def k1_def [symmetric] by (auto split: sum.split)
    then show ?thesis using k1 by auto
  qed
qed

end
