(* ===== verification/Syscall_Errors.thy ===== *)
theory Syscall_Errors
  imports Wasm_Host
begin

text \<open>
  The error codes of \<^verbatim>\<open>src/syscall_errors.rs\<close>, and which of them the host functions return. The host
  functions write the numbers out; the constants name them.
\<close>

section \<open>Codes\<close>

definition OK :: u32 where "OK = 0"
definition ERR_GENERAL :: u32 where "ERR_GENERAL = 1"
definition ERR_PERMISSION_DENIED :: u32 where "ERR_PERMISSION_DENIED = 2"
definition ERR_NOT_FOUND :: u32 where "ERR_NOT_FOUND = 3"
definition ERR_NETWORK_UNREACHABLE :: u32 where "ERR_NETWORK_UNREACHABLE = 4"
definition ERR_TIMEOUT :: u32 where "ERR_TIMEOUT = 5"
definition ERR_INVALID_ARGUMENT :: u32 where "ERR_INVALID_ARGUMENT = 6"
definition ERR_CAPABILITY_MISSING :: u32 where "ERR_CAPABILITY_MISSING = 100"
definition ERR_CAPABILITY_NETWORK :: u32 where "ERR_CAPABILITY_NETWORK = 101"
definition ERR_CAPABILITY_FILESYSTEM :: u32 where "ERR_CAPABILITY_FILESYSTEM = 102"
definition ERR_CAPABILITY_SPAWN :: u32 where "ERR_CAPABILITY_SPAWN = 103"
definition ERR_CAPABILITY_PROCESS :: u32 where "ERR_CAPABILITY_PROCESS = 104"

lemmas code_defs = OK_def ERR_GENERAL_def ERR_PERMISSION_DENIED_def ERR_NOT_FOUND_def ERR_NETWORK_UNREACHABLE_def
  ERR_TIMEOUT_def ERR_INVALID_ARGUMENT_def ERR_CAPABILITY_MISSING_def ERR_CAPABILITY_NETWORK_def
  ERR_CAPABILITY_FILESYSTEM_def ERR_CAPABILITY_SPAWN_def ERR_CAPABILITY_PROCESS_def

definition error_message :: "u32 \<Rightarrow> string" where
  "error_message code =
     (if code = OK then ''OK''
      else if code = ERR_GENERAL then ''General error''
      else if code = ERR_PERMISSION_DENIED then ''Permission denied''
      else if code = ERR_NOT_FOUND then ''Resource not found''
      else if code = ERR_NETWORK_UNREACHABLE then ''Network unreachable''
      else if code = ERR_TIMEOUT then ''Operation timed out''
      else if code = ERR_INVALID_ARGUMENT then ''Invalid argument''
      else if code = ERR_CAPABILITY_MISSING then ''Missing required capability''
      else if code = ERR_CAPABILITY_NETWORK then ''Missing Capability::Network''
      else if code = ERR_CAPABILITY_FILESYSTEM then ''Missing Capability::FileSystem for this path''
      else if code = ERR_CAPABILITY_SPAWN then ''Missing Capability::Spawn''
      else if code = ERR_CAPABILITY_PROCESS then ''Missing Capability::Process for target PID''
      else ''Unknown error'')"

section \<open>Results of computations\<close>

text \<open>Every value a computation returns (traps aside) satisfies \<open>P\<close>.\<close>

definition yields :: "('st, 'a) host \<Rightarrow> ('a \<Rightarrow> bool) \<Rightarrow> bool" where
  "yields m P \<longleftrightarrow> (\<forall>st r st'. m st = Done (Inr r, st') \<longrightarrow> P r)"

named_theorems yields_intros \<open>rules for the results of host computations\<close>

lemma yields_hreturn [yields_intros]: "P x \<Longrightarrow> yields (hreturn x) P"
  by (simp add: yields_def hreturn_def)

lemma hbind_Inr_iff:
  "hbind m f st = Done (Inr r, st') \<longleftrightarrow> (\<exists>x st1. m st = Done (Inr x, st1) \<and> f x st1 = Done (Inr r, st'))"
  by (auto simp: hbind_def obind_Done_iff split: sum.splits) (metis sum.exhaust)

lemma yields_hbind [yields_intros]: "(\<And>x. yields (f x) P) \<Longrightarrow> yields (hbind m f) P"
  unfolding yields_def hbind_Inr_iff by blast

lemma yields_hget [yields_intros]: "(\<And>st. P (g st)) \<Longrightarrow> yields (hget g) P"
  by (simp add: yields_def hget_def)

lemma yields_hkernel [yields_intros]: "(\<And>x. P x) \<Longrightarrow> yields (hkernel F) P"
  by (simp add: yields_def)

lemma yields_if [yields_intros]: "yields m P \<Longrightarrow> yields m' P \<Longrightarrow> yields (if c then m else m') P"
  by simp

lemma yields_option [yields_intros]:
  "yields m P \<Longrightarrow> (\<And>x. yields (f x) P) \<Longrightarrow> yields (case v of None \<Rightarrow> m | Some x \<Rightarrow> f x) P"
  by (cases v) simp_all

lemma yields_sum [yields_intros]:
  "(\<And>x. yields (f x) P) \<Longrightarrow> (\<And>x. yields (g x) P) \<Longrightarrow> yields (case v of Inl x \<Rightarrow> f x | Inr x \<Rightarrow> g x) P"
  by (cases v) simp_all

lemma yields_hmap: "yields m (\<lambda>x. P (f x)) \<Longrightarrow> yields (hmap f m) P"
  unfolding yields_def hmap_def hbind_Inr_iff by (auto simp: hreturn_def)

section \<open>What each host function returns\<close>

fun may_return :: "host_call \<Rightarrow> host_value \<Rightarrow> bool" where
  "may_return (DebugLog _ _) v \<longleftrightarrow> v = NoValue"
| "may_return (SendIpc _ _ _) v \<longleftrightarrow> v \<in> {I32 OK, I32 ERR_GENERAL, I32 ERR_PERMISSION_DENIED}"
| "may_return (TcpRequest _ _ _ _) v \<longleftrightarrow> v \<in> {I32 OK, I32 ERR_GENERAL, I32 ERR_PERMISSION_DENIED}"
| "may_return (ResolveDns _ _ _) v \<longleftrightarrow> v \<in> {I32 OK, I32 ERR_GENERAL, I32 ERR_PERMISSION_DENIED}"
| "may_return (FileRead _ _ _ _) v \<longleftrightarrow> v \<in> {I32 OK, I32 ERR_PERMISSION_DENIED, I32 ERR_NOT_FOUND}"
| "may_return (FileWrite _ _ _ _) v \<longleftrightarrow> v \<in> {I32 OK, I32 ERR_GENERAL, I32 ERR_PERMISSION_DENIED}"
| "may_return (FileList _ _ _ _) v \<longleftrightarrow> v \<in> {I32 OK, I32 ERR_PERMISSION_DENIED}"
| "may_return GetTime v \<longleftrightarrow> (case v of I64 _ \<Rightarrow> True | _ \<Rightarrow> False)"
| "may_return GetUptimeMs v \<longleftrightarrow> (case v of I64 _ \<Rightarrow> True | _ \<Rightarrow> False)"
| "may_return (RequestCapability _ _ _) v \<longleftrightarrow> v \<in> {I32 OK, I32 ERR_GENERAL}"

lemmas host_call_defs = debug_log_def send_ipc_def tcp_request_def resolve_dns_def file_read_def file_write_def
  file_list_def get_time_def get_uptime_ms_def request_capability_def auto_grant_def host_println_def

lemma host_function_yields: "yields (host_function E c) (may_return c)"
  by (cases c; simp only: host_function.simps; rule yields_hmap;
      simp only: host_call_defs Let_def; intro yields_intros; simp add: code_defs)

end
