(* ===== verification/Sandbox_Properties.thy ===== *)
theory Sandbox_Properties
  imports Host_Calls Syscall_Errors
begin

text \<open>
  The theorems about the sandbox, each with a concrete agent: process 1 of a kernel with one
  read-only file, holding the capability for the files below \<^verbatim>\<open>/agent/\<close>.
\<close>

section \<open>A concrete agent\<close>

definition list_memory :: "u8 list wasm_memory" where
  "list_memory =
     \<lparr>mem_read = (\<lambda>m p n. if p + n \<le> length m then Some (take n (drop p m)) else None),
      mem_write = (\<lambda>m p bs. if p + length bs \<le> length m then Some (take p m @ bs @ drop (p + length bs) m) else None)\<rparr>"

definition sample_env :: "(unit, unit, (nat \<times> u8 list) list, u8 list, u8 list) host_env" where
  "sample_env = \<lparr>platform_of = sample_platform, wmem = list_memory, alloc_ok = (\<lambda>n. n \<le> HEAP_SIZE)\<rparr>"

definition sample_kernel :: "(unit, (nat \<times> u8 list) list, unit) kernel" where
  "sample_kernel =
     \<lparr>k_caps = \<lparr>cap_store = [CapabilityId 1 \<mapsto> FileSystem ''/agent/'' True True], next_cap_id = 2\<rparr>,
      k_registry = \<lparr>agents = [AgentId 1 \<mapsto> \<lparr>ag_id = AgentId 1, ag_name = ''demo'',
                                 ag_capabilities = [CapabilityId 1], ag_state = Running\<rparr>], next_agent_id = 2\<rparr>,
      k_ipc = ipc_init Map.empty, k_vfs = register_file ''a.wasm'' [0, 97] [], k_net = Some sample_net,
      k_console = blank_console, k_uptime = 0, k_hw = ()\<rparr>"

definition sample_session :: "(u8 list, unit, (nat \<times> u8 list) list, unit) session" where
  "sample_session =
     \<lparr>st_pid = 1, st_mem = Some (as_bytes ''/agent/x'' @ [1, 2, 3] @ as_bytes ''a.wasm'' @ replicate 100 0),
      st_k = sample_kernel\<rparr>"

lemma sample_kernel_ok: "kernel_ok sample_kernel"
  by (auto simp: kernel_ok_def sample_kernel_def caps_ok_def registry_ok_def ipc_ok_init register_file_def console_ok_blank)

lemma sample_session_fields [simp]: "st_pid sample_session = 1" "st_k sample_session = sample_kernel"
  by (simp_all add: sample_session_def)

lemma sample_held: "held sample_session = {FileSystem ''/agent/'' True True}"
  by (auto simp: set_eq_iff held_iff caller_caps_def sample_kernel_def agent_capabilities_def)

lemma sample_readable:
  "readable sample_env sample_session 0 8 (as_bytes ''/agent/x'')" "readable sample_env sample_session 8 3 [1, 2, 3]"
  "readable sample_env sample_session 11 6 (as_bytes ''a.wasm'')"
  by (simp_all add: readable_def sample_env_def list_memory_def sample_session_def HEAP_SIZE_def as_bytes_def)

lemma sample_paths:
  "from_utf8 (as_bytes ''/agent/x'') = Some ''/agent/x''" "from_utf8 (as_bytes ''a.wasm'') = Some ''a.wasm''"
proof -
  have "valid_utf8 (as_bytes ''/agent/x'')" "valid_utf8 (as_bytes ''a.wasm'')"
    by (rule valid_utf8_ascii, simp add: as_bytes_def, elim disjE, simp_all)+
  then show "from_utf8 (as_bytes ''/agent/x'') = Some ''/agent/x''" "from_utf8 (as_bytes ''a.wasm'') = Some ''a.wasm''"
    by (simp_all add: from_utf8_Some_iff)
qed

lemma sample_authority:
  "may_write sample_session ''/agent/x''" "may_read sample_session ''/agent/x''"
  "\<not> may_read sample_session ''a.wasm''" "\<not> may_write sample_session ''a.wasm''" "\<not> may_network sample_session"
  "\<not> may_send sample_session p"
  by (auto simp: may_defs sample_held starts_with_def)

lemma sample_write:
  "\<exists>st'. host_function (sample_env\<lparr>alloc_ok := alloc_ok sample_env\<rparr>) (FileWrite 0 8 8 3) sample_session = Done (Inr (I32 0), st') \<and>
     file_at (k_vfs (st_k st')) ''/agent/x'' = Some (agent_file ''/agent/x'' [1, 2, 3] 1)"
proof -
  have "write_file ''/agent/x'' [1, 2, 3] (st_pid sample_session) (k_vfs (st_k sample_session))
      = (True, k_vfs sample_kernel @ [agent_file ''/agent/x'' [1, 2, 3] 1])"
    by (simp add: write_file_def sample_kernel_def register_file_def agent_file_def)
  from file_write_eq [OF sample_readable(1) sample_paths(1) sample_authority(1) sample_readable(2) this] show ?thesis
    by (simp add: hmap_def host_eval file_at_append) (simp add: sample_kernel_def register_file_def file_at_def agent_file_def)
qed

lemma sample_run:
  obtains st' where "guest_run sample_env sample_session [FileWrite 0 8 8 3] st'"
    "file_at (k_vfs (st_k st')) ''/agent/x'' = Some (agent_file ''/agent/x'' [1, 2, 3] 1)"
  using sample_write guest_run_one [OF guest_step.call] by blast

section \<open>Properties\<close>

text \<open>C1: Complete mediation. However an agent uses the host functions other than the request for a
  capability, and whatever happens between its calls, its capabilities stay what they were, and the
  system around it changes only within them: a file changes only if its path starts with the prefix of a
  file-system capability with write permission, a mailbox only if there is a process capability to
  send to it, the network stack only with the network capability; agents and capabilities do not
  change at all.\<close>

theorem agent_confined_to_capabilities:
  assumes "guest_run E st cs st'" and "\<forall>c \<in> set cs. \<not> escalates c" and "vfs_ok (k_vfs (st_k st))"
  shows "held st' = held st \<and> k_caps (st_k st') = k_caps (st_k st) \<and> k_registry (st_k st') = k_registry (st_k st) \<and>
    (\<forall>n. file_at (k_vfs (st_k st')) n \<noteq> file_at (k_vfs (st_k st)) n \<longrightarrow>
       (\<exists>pre r. FileSystem pre r True \<in> held st \<and> starts_with n pre)) \<and>
    (\<forall>p. k_ipc (st_k st') p \<noteq> k_ipc (st_k st) p \<longrightarrow> (\<exists>r. Process (raw_pid p) True r \<in> held st)) \<and>
    (k_net (st_k st') \<noteq> k_net (st_k st) \<longrightarrow> Network \<in> held st)"
  using guest_run_within [OF assms] within_held [OF guest_run_within [OF assms]]
  unfolding within_def may_defs by simp

theorem agent_confined_to_capabilities_witness:
  "\<exists>st'. guest_run sample_env sample_session [FileWrite 0 8 8 3] st' \<and>
     file_at (k_vfs (st_k st')) ''/agent/x'' \<noteq> file_at (k_vfs (st_k sample_session)) ''/agent/x'' \<and>
     k_ipc (st_k st') = k_ipc (st_k sample_session) \<and> k_net (st_k st') = k_net (st_k sample_session) \<and>
     file_at (k_vfs (st_k st')) ''a.wasm'' = file_at (k_vfs (st_k sample_session)) ''a.wasm''"
proof -
  obtain st' where run: "guest_run sample_env sample_session [FileWrite 0 8 8 3] st'"
    and f: "file_at (k_vfs (st_k st')) ''/agent/x'' = Some (agent_file ''/agent/x'' [1, 2, 3] 1)"
    by (rule sample_run)
  have "\<forall>c \<in> set [FileWrite 0 8 8 3]. \<not> escalates c" "vfs_ok (k_vfs (st_k sample_session))"
    using sample_kernel_ok by (simp_all add: escalates_def kernel_ok_def)
  note conf = agent_confined_to_capabilities [OF run this]
  have "file_at (k_vfs (st_k sample_session)) ''/agent/x'' = None"
    by (simp add: sample_kernel_def register_file_def file_at_def)
  moreover have "k_ipc (st_k st') = k_ipc (st_k sample_session)"
    using conf sample_authority(6) [unfolded may_send_def] by (intro ext) blast
  moreover have "k_net (st_k st') = k_net (st_k sample_session)"
    using conf sample_authority(5) [unfolded may_network_def] by blast
  moreover have "file_at (k_vfs (st_k st')) ''a.wasm'' = file_at (k_vfs (st_k sample_session)) ''a.wasm''"
    using conf sample_authority(4) [unfolded may_write_def] by blast
  ultimately show ?thesis using run f by (intro exI [of _ st'] conjI) simp_all
qed

text \<open>C2: Isolation. Whatever an agent does, escalation included: every other agent keeps its name,
  state and capability list, no agent appears or disappears, no capability is revoked or changed,
  every mailbox keeps its messages in order and gains at its end only messages that carry the agent's own
  process identifier and no capability, a file that is not as before is writable and owned by the agent,
  and the kernel state stays well-formed.\<close>

theorem agent_isolated_from_others:
  assumes "guest_run E st cs st'" and "kernel_ok (st_k st)"
  shows "isolated (st_pid st) (st_k st) (st_k st') \<and> st_pid st' = st_pid st"
  using guest_run_inv [OF iso.host_invariant_grant_axioms assms(1)] isolated_refl [OF assms(2)] by blast

theorem agent_isolated_from_others_witness:
  "\<exists>st'. guest_run sample_env sample_session [FileWrite 0 8 8 3] st' \<and>
     file_at (k_vfs (st_k st')) ''/agent/x'' = Some (agent_file ''/agent/x'' [1, 2, 3] 1) \<and>
     isolated 1 sample_kernel (st_k st')"
proof -
  obtain st' where run: "guest_run sample_env sample_session [FileWrite 0 8 8 3] st'"
    and f: "file_at (k_vfs (st_k st')) ''/agent/x'' = Some (agent_file ''/agent/x'' [1, 2, 3] 1)"
    by (rule sample_run)
  show ?thesis using agent_isolated_from_others [OF run] run f sample_kernel_ok by auto
qed

text \<open>Boot files are immutable. No run of an agent, with whatever capabilities it has or obtains,
  changes or removes a read-only file, such as every file mounted from the boot archive: the file
  behind the name, its contents and its owner stay the same.\<close>

lemma read_only_files_survive_agents:
  assumes "guest_run E st cs st'" and "vfs_ok (k_vfs (st_k st))"
    and "file_at (k_vfs (st_k st)) n = Some f" and "vf_read_only f"
  shows "file_at (k_vfs (st_k st')) n = Some f \<and> open_file (k_vfs (st_k st')) n = Some (vf_data f)"
proof -
  have "holds_file f n (st_k st)" using assms(2-4) by (simp add: holds_file_def)
  then have "holds_file f n (st_k st')"
    using guest_run_inv [OF ro.host_invariant_grant_axioms assms(1)] by blast
  then show ?thesis by (simp add: holds_file_def open_file_file_at)
qed

lemma read_only_files_survive_agents_witness:
  "\<exists>st'. guest_run sample_env sample_session [FileWrite 0 8 8 3] st' \<and>
     open_file (k_vfs (st_k st')) ''a.wasm'' = Some [0, 97]"
proof -
  obtain st' where run: "guest_run sample_env sample_session [FileWrite 0 8 8 3] st'" by (rule sample_run)
  have f: "file_at (k_vfs (st_k sample_session)) ''a.wasm''
      = Some \<lparr>vf_name = ''a.wasm'', vf_data = [0, 97], vf_owner_pid = 0, vf_read_only = True\<rparr>"
    by (simp add: sample_kernel_def register_file_def file_at_def)
  have "vfs_ok (k_vfs (st_k sample_session))" using sample_kernel_ok by (simp add: kernel_ok_def)
  from read_only_files_survive_agents [OF run this f] run show ?thesis by auto
qed

text \<open>C17: Denial is complete. An agent without the capability a host function checks gets the code 2
  (permission denied), and the only trace of the call is one \<^verbatim>\<open>[SECURITY]\<close> line on the serial port: no
  file, mailbox, capability, agent, guest byte or network state is touched. The network functions decide
  before they read anything from the guest; the others after they have read the path or message.\<close>

theorem denied_calls_change_nothing:
  assumes "readable E st ptr len buf"
  shows "(\<not> may_send st (ProcessId t) \<longrightarrow>
       send_ipc E t ptr len st = denied st ('' denied send to Agent '' @ dec t)) \<and>
    (\<not> may_network st \<longrightarrow>
       tcp_request E ip_ptr port p l st = denied st '' denied network access'' \<and>
       resolve_dns E p l out st = denied st '' denied DNS access'') \<and>
    (\<forall>path. from_utf8 buf = Some path \<longrightarrow>
       (\<not> may_read st path \<longrightarrow>
          file_read E ptr len out out_len st = denied st ('' denied file read: '' @ path) \<and>
          file_list E ptr len out out_len st = denied st ('' denied file list: '' @ path)) \<and>
       (\<not> may_write st path \<longrightarrow>
          file_write E ptr len p l st = denied st ('' denied file write: '' @ path)))"
proof -
  obtain m where "st_mem st = Some m" using assms by (cases "st_mem st") (auto simp: readable_def)
  then show ?thesis
    using assms by (simp add: send_ipc_denied network_denied file_denied)
qed

theorem denied_calls_change_nothing_witness:
  "send_ipc sample_env 7 11 6 sample_session = denied sample_session '' denied send to Agent 7'' \<and>
   tcp_request sample_env 0 80 0 0 sample_session = denied sample_session '' denied network access'' \<and>
   file_read sample_env 11 6 20 60 sample_session = denied sample_session '' denied file read: a.wasm'' \<and>
   file_write sample_env 11 6 0 0 sample_session = denied sample_session '' denied file write: a.wasm''"
proof -
  have "dec (7 :: u64) = ''7''" by code_simp
  then show ?thesis
    using denied_calls_change_nothing [OF sample_readable(3), of 7 0 80 0 0 20 60] sample_paths sample_authority by simp
qed

text \<open>C14: Every request for a capability is granted. For the types 0, 1 and 2, any agent that asks
  obtains the capability at once, without holding anything: the network, any file-system prefix it
  names with read and write permission (\<^verbatim>\<open>/agent/\<close> if it names none), or the right to spawn. The message
  sent to the supervisor is not waited for and may be lost. A process identifier that belongs to no agent is told 0,
  success, and gets nothing.\<close>

theorem request_capability_always_grants:
  assumes "kernel_ok (st_k st)" and "0 < cap_room (k_caps (st_k st))" and "st_mem st = Some m"
    and "if 0 < len then readable E st ptr len buf else buf = []" and "cap_type \<in> {0, 1, 2}"
  shows "\<exists>st'. request_capability E cap_type ptr len st = Done (Inr 0, st') \<and>
    held st' = (if agents (k_registry (st_k st)) (AgentId (st_pid st)) = None then held st
                else insert (requested cap_type (unwrap_or (from_utf8 buf) [])) (held st))"
proof -
  obtain st1 where run: "request_capability E cap_type ptr len st
      = auto_grant (st_pid st) cap_type (unwrap_or (from_utf8 buf) []) st1"
    and same: "st_pid st1 = st_pid st" "k_caps (st_k st1) = k_caps (st_k st)" "k_registry (st_k st1) = k_registry (st_k st)"
    using request_capability_eq [OF assms(3,4)] by blast
  have "held st1 = held st" by (simp add: held_def caller_caps_def same)
  moreover have "caps_ok (k_caps (st_k st1))" "0 < cap_room (k_caps (st_k st1))"
    using assms(1,2) by (simp_all add: same kernel_ok_def)
  ultimately show ?thesis
    using auto_grant_held [OF _ _ assms(5), of st1] run same by auto
qed

theorem request_capability_always_grants_witness:
  "\<exists>st'. request_capability sample_env 1 11 6 sample_session = Done (Inr 0, st') \<and>
     may_write st' ''a.wasm'' \<and> \<not> may_write sample_session ''a.wasm''"
proof -
  have "0 < cap_room (k_caps (st_k sample_session))" by (simp add: cap_room_def sample_kernel_def)
  moreover have "\<exists>m. st_mem sample_session = Some m" by (simp add: sample_session_def)
  moreover have "agents (k_registry sample_kernel) (AgentId 1) \<noteq> None" by (simp add: sample_kernel_def)
  ultimately have "\<exists>st'. request_capability sample_env 1 11 6 sample_session = Done (Inr 0, st') \<and>
      held st' = insert (requested 1 ''a.wasm'') (held sample_session)"
    using request_capability_always_grants [of sample_session _ 6 sample_env 11 "as_bytes ''a.wasm''" 1]
      sample_readable(3) sample_paths(2) sample_kernel_ok by auto
  then obtain st' where run: "request_capability sample_env 1 11 6 sample_session = Done (Inr 0, st')"
    and "FileSystem ''a.wasm'' True True \<in> held st'" by (auto simp: requested_def)
  moreover from this have "may_write st' ''a.wasm''"
    unfolding may_write_def by (intro exI [of _ "''a.wasm''"] exI [of _ True]) (simp add: starts_with_def)
  ultimately show ?thesis using sample_authority(4) by blast
qed

text \<open>C18: The agent's files are its own memory of them. With the capability for a path that is free or
  writable, storing \<open>dat\<close> with \<^verbatim>\<open>file_write\<close> and loading the path with \<^verbatim>\<open>file_read\<close> both return 0, and
  the guest finds exactly the bytes of \<open>dat\<close> at the output pointer and their number, in little-endian
  order, at the length pointer, provided the two areas lie in its memory and do not overlap.\<close>

theorem file_write_read_roundtrip:
  assumes "memory_laws (wmem E)" and "vfs_ok (k_vfs (st_k st))" and "st_mem st = Some m"
    and "readable E st ptr len buf" and "from_utf8 buf = Some path" and "may_write st path" and "may_read st path"
    and "case file_at (k_vfs (st_k st)) path of None \<Rightarrow> True | Some f \<Rightarrow> \<not> vf_read_only f"
    and "readable E st dat_ptr dat_len dat"
    and "mem_read (wmem E) m (unat out) (length dat) \<noteq> None" and "mem_read (wmem E) m (unat out_len) 4 \<noteq> None"
    and "unat out_len + 4 \<le> unat out \<or> unat out + length dat \<le> unat out_len"
  shows "\<exists>st1 st2 m2. file_write E ptr len dat_ptr dat_len st = Done (Inr 0, st1) \<and>
    file_read E ptr len out out_len st1 = Done (Inr 0, st2) \<and> st_mem st2 = Some m2 \<and>
    mem_read (wmem E) m2 (unat out) (length dat) = Some dat \<and>
    (\<exists>bs. mem_read (wmem E) m2 (unat out_len) 4 = Some bs \<and> le_value bs = length dat)"
proof -
  note laws = memory_lawsD [OF assms(1)]
  obtain fs where w: "write_file path dat (st_pid st) (k_vfs (st_k st)) = (True, fs)"
    and f: "file_at fs = (file_at (k_vfs (st_k st)))(path \<mapsto> agent_file path dat (st_pid st))"
    using write_file_free [OF assms(2), of path dat "st_pid st"] assms(8) by (auto split: option.splits)
  obtain st1 where wr: "file_write E ptr len dat_ptr dat_len st = Done (Inr 0, st1)"
    and st1: "st_mem st1 = st_mem st" "k_vfs (st_k st1) = fs" "held st1 = held st"
    using file_write_eq [OF assms(4,5,6,9) w] by (auto simp: held_def caller_caps_def)
  have open_f: "open_file (k_vfs (st_k st1)) path = Some dat" by (simp add: st1 open_file_file_at f agent_file_def)
  have rd: "readable E st1 ptr len buf" "may_read st1 path" using assms(4,7) by (simp_all add: readable_def st1 may_read_def)
  let ?lb = "u32_to_le_bytes (of_nat (length dat))"
  have lb: "length ?lb = 4" by (simp add: u32_to_le_bytes_def)
  obtain m1 where m1: "mem_write (wmem E) m (unat out) dat = Some m1" using laws(2) [OF assms(10)] by blast
  have "mem_read (wmem E) m1 (unat out_len) (length ?lb) \<noteq> None"
    using laws(5) [OF m1, of "unat out_len" 4] assms(11) by (simp add: lb)
  then obtain m2 where m2: "mem_write (wmem E) m1 (unat out_len) ?lb = Some m2" using laws(2) by blast
  have "file_read E ptr len out out_len st1 = Done (Inr 0, st1\<lparr>st_mem := Some m2\<rparr>)"
    using file_read_eq [OF rd(1) assms(5) rd(2) open_f _ m1 m2] assms(3) by (simp add: st1)
  moreover have "mem_read (wmem E) m2 (unat out) (length dat) = Some dat"
    using laws(4) [OF m2, of "unat out" "length dat"] laws(3) [OF m1] assms(12) lb by auto
  moreover have "mem_read (wmem E) m2 (unat out_len) 4 = Some ?lb" using laws(3) [OF m2] by (simp add: lb)
  moreover have "le_value ?lb = length dat"
  proof -
    have "length dat < 2 ^ 32" using laws(1) assms(3,9) by (auto simp: readable_def)
    then show ?thesis unfolding le_value_u32_to_le_bytes by (subst unat_of_nat) simp
  qed
  ultimately show ?thesis using wr by auto
qed

lemma list_memory_laws: "memory_laws list_memory"
proof -
  have frame: "take n (drop q (take p m @ bs @ drop (p + length bs) m)) = take n (drop q m)"
    if "p + length bs \<le> length m" "q + n \<le> length m" "q + n \<le> p \<or> p + length bs \<le> q"
    for m bs :: "u8 list" and p q n
    using that by (intro nth_equalityI) (auto simp: nth_append)
  show ?thesis
    unfolding memory_laws_def
  proof (intro conjI allI impI)
    fix m m' bs :: "u8 list" and p q n
    assume "mem_write list_memory m p bs = Some m'" and "q + n \<le> p \<or> p + length bs \<le> q"
    then show "mem_read list_memory m' q n = mem_read list_memory m q n"
      using frame [of p bs m q n] by (auto simp: list_memory_def simp del: take_append drop_append split: if_splits)
  qed (auto simp: list_memory_def split: if_splits)
qed

theorem file_write_read_roundtrip_witness:
  "\<exists>st1 st2 m2. file_write sample_env 0 8 8 3 sample_session = Done (Inr 0, st1) \<and>
     file_read sample_env 0 8 30 40 st1 = Done (Inr 0, st2) \<and> st_mem st2 = Some m2 \<and>
     mem_read list_memory m2 30 3 = Some [1, 2, 3]"
proof -
  have laws: "memory_laws (wmem sample_env)" using list_memory_laws by (simp add: sample_env_def)
  have fs: "vfs_ok (k_vfs (st_k sample_session))" using sample_kernel_ok by (simp add: kernel_ok_def)
  obtain m where m: "st_mem sample_session = Some m" "length m = 117"
    by (simp add: sample_session_def)
  have free: "case file_at (k_vfs (st_k sample_session)) ''/agent/x'' of None \<Rightarrow> True | Some f \<Rightarrow> \<not> vf_read_only f"
    by (simp add: sample_kernel_def register_file_def file_at_def)
  have out: "mem_read (wmem sample_env) m (unat (30 :: u32)) (length [1, 2, 3 :: u8]) \<noteq> None"
    "mem_read (wmem sample_env) m (unat (40 :: u32)) 4 \<noteq> None"
    using m(2) by (simp_all add: sample_env_def list_memory_def)
  have "unat (40 :: u32) + 4 \<le> unat (30 :: u32) \<or> unat (30 :: u32) + length [1, 2, 3 :: u8] \<le> unat (40 :: u32)" by simp
  note rt = file_write_read_roundtrip [OF laws fs m(1) sample_readable(1) sample_paths(1) sample_authority(1,2) free
      sample_readable(2) out this]
  have "wmem sample_env = list_memory" "unat (30 :: u32) = 30" "length [1, 2, 3 :: u8] = 3" by (simp_all add: sample_env_def)
  with rt show ?thesis by metis
qed

text \<open>C16: Any agent can halt the machine. Five host functions allocate a buffer of the length the guest
  names before they check anything; a length above the 8 MiB of the kernel heap, of which the allocator
  can serve none, ends in the allocation error handler: the kernel panics, for an agent with no
  capability at all.\<close>

theorem oversized_length_halts_kernel:
  assumes "\<forall>n. alloc_ok E n \<longrightarrow> n \<le> HEAP_SIZE" and "st_mem st = Some m" and "8 * 1024 * 1024 < unat len"
  shows "debug_log E ptr len st = Panic AllocError \<and> send_ipc E t ptr len st = Panic AllocError \<and>
    file_read E ptr len out out_len st = Panic AllocError \<and> file_write E ptr len out out_len st = Panic AllocError \<and>
    file_list E ptr len out out_len st = Panic AllocError \<and> request_capability E cap_type ptr len st = Panic AllocError"
proof -
  have a: "unat len \<noteq> 0" "\<not> alloc_ok E (unat len)" using assms(1,3) by (auto simp: HEAP_SIZE_def)
  then have "alloc_zeroed E (unat len) st = Panic AllocError" by (simp add: alloc_zeroed_def host_eval)
  then show ?thesis
    using a assms(2)
    by (simp add: debug_log_def send_ipc_def file_read_def file_write_def file_list_def request_capability_def host_eval
        get_memory_Some guest_buffer_alloc_fails)
qed

theorem oversized_length_halts_kernel_witness:
  "send_ipc sample_env 0 0 0xFFFFFFFF sample_session = Panic AllocError"
proof -
  obtain m where m: "st_mem sample_session = Some m" by (simp add: sample_session_def)
  have "\<forall>n. alloc_ok sample_env n \<longrightarrow> n \<le> HEAP_SIZE" by (simp add: sample_env_def)
  from oversized_length_halts_kernel [OF this m, of "0xFFFFFFFF"] show ?thesis by simp
qed

text \<open>C3: What a host function can do to the kernel. On a machine whose card, IP stack and clock behave, while an
  identifier is left, every host function called from a well-formed kernel state, for all arguments, does one of
  three things. It returns a value or a trap and leaves the kernel well-formed, the network device included. Or it panics
  in the allocator, and then the guest named the length of a buffer the allocator cannot serve. Or it hangs, and then it
  is one of the two functions that poll the interface, the agent holds the network capability, there is a
  network stack, and a poll does not end. No index, slice or arithmetic panics, and no other loop hangs.\<close>

theorem host_function_safe:
  assumes "platform_laws (platform_of E) base J" and "kernel_ready base J (st_k st)" and "0 < cap_room (k_caps (st_k st))"
  shows "case host_function E c st of
      Done (r, st') \<Rightarrow> kernel_ready base J (st_k st')
    | Panic p \<Rightarrow>
        p = AllocError \<and> (\<exists>n. n \<in> set (buffers c) \<and> n \<noteq> 0 \<and> \<not> alloc_ok E n) \<or>
        p = Hang \<and> networks c \<and> may_network st \<and> k_net (st_k st) \<noteq> None \<and> poll_stuck (platform_of E)"
proof (cases "host_function E c st")
  case (Done x)
  have "sat any_panic (host_function E c) (\<lambda>_ st'. kernel_ready base J (st_k st')) st"
    by (rule host_function_ready) (use assms in simp_all)
  then show ?thesis using Done by (simp add: sat_def)
next
  case (Panic p)
  have "sat (\<lambda>p. p = AllocError \<or> (networks c \<and> hangs (platform_of E) J p)) (host_function E c)
      (\<lambda>_ st'. kernel_ready base J (st_k st')) st"
    by (rule host_function_ready) (use assms in simp_all)
  then consider "p = AllocError" | "p = Hang" "networks c" "poll_stuck (platform_of E)"
    using Panic by (auto simp: sat_def hangs_def)
  then show ?thesis
  proof cases
    case 1
    have "\<not> served E c"
    proof
      assume "served E c"
      from host_function_ready_served [OF assms(1) this assms(2,3)] show False
        using Panic 1 by (simp add: sat_def hangs_def)
    qed
    then show ?thesis using Panic 1 by (auto simp: served_def)
  next
    case 2
    have "k_net (st_k st) \<noteq> None"
    proof
      assume "k_net (st_k st) = None"
      then have off: "kernel_ready base (\<lambda>_ _. False) (st_k st)" using assms(2) by (simp add: kernel_ready_offline kernel_ready_def)
      have "sat (\<lambda>p. p = AllocError) (host_function E c) (\<lambda>_ st'. kernel_ready base (\<lambda>_ _. False) (st_k st')) st"
        by (rule host_function_ready [OF platform_laws_offline [OF assms(1)] _ _ off assms(3)]) simp_all
      then show False using Panic 2(1) by (simp add: sat_def)
    qed
    moreover have "may_network st" by (rule polls_need_network [OF 2(2), of E]) (use Panic in simp)
    ultimately show ?thesis using Panic 2 by simp
  qed
qed

definition online_session :: "(u8 list, unit, (nat \<times> u8 list) list, unit) session" where
  "online_session = sample_session\<lparr>st_k := sample_kernel\<lparr>k_caps :=
     \<lparr>cap_store = [CapabilityId 1 \<mapsto> Network], next_cap_id = 2\<rparr>\<rparr>\<rparr>"

lemma sample_platform_laws: "platform_laws sample_platform 0xC000 (\<lambda>off hw. off < 8192)"
  using sample_card_follows sample_frames_within_mtu sample_recv_fits
  by (simp add: platform_laws_def) (simp add: sample_platform_def)

theorem host_function_safe_witness:
  "may_network online_session \<and> k_net (st_k online_session) \<noteq> None \<and>
   (\<exists>r st'. host_function sample_env (ResolveDns 0 8 30) online_session = Done (r, st') \<and> kernel_ok (st_k st')) \<and>
   (\<exists>r st'. host_function sample_env (TcpRequest 0 80 8 3) online_session = Done (r, st') \<and> kernel_ok (st_k st'))"
proof -
  let ?J = "\<lambda>off (hw :: unit). off < 8192"
  have k: "k_caps (st_k online_session) = \<lparr>cap_store = [CapabilityId 1 \<mapsto> Network], next_cap_id = 2\<rparr>"
    "k_net (st_k online_session) = Some sample_net" "k_hw (st_k online_session) = ()"
    by (simp_all add: online_session_def sample_kernel_def)
  have "may_network online_session"
    by (simp add: may_network_def held_iff k) (simp add: caller_caps_def online_session_def sample_kernel_def agent_capabilities_def)
  moreover have laws: "platform_laws (platform_of sample_env) 0xC000 ?J" "\<not> poll_stuck (platform_of sample_env)"
    using sample_platform_laws sample_poll_not_stuck [of sample_platform] by (simp_all add: sample_env_def) (simp add: sample_platform_def)
  have "kernel_ok (st_k online_session)"
    using sample_kernel_ok by (simp add: online_session_def kernel_ok_def caps_ok_def)
  then have ready: "kernel_ready 0xC000 ?J (st_k online_session)" "0 < cap_room (k_caps (st_k online_session))"
    using sample_net_ok by (simp_all add: kernel_ready_def net_ready_def k cap_room_def)
  have "\<exists>r st'. host_function sample_env c online_session = Done (r, st') \<and> kernel_ok (st_k st')" if "served sample_env c" for c
    using host_function_safe [OF laws(1) ready, of c] laws(2) that
    by (auto simp: kernel_ready_def served_def split: outcome.splits)
  moreover have "served sample_env (ResolveDns 0 8 30)" "served sample_env (TcpRequest 0 80 8 3)"
    by (simp_all add: served_def sample_env_def HEAP_SIZE_def)
  ultimately show ?thesis using k(2) by (simp del: host_function.simps)
qed

text \<open>C27: The typing of the import table. Each host function returns a value of its own type and, if that is an
  error code, only the codes listed for it: 0 to 3, each of which \<^verbatim>\<open>error_message\<close> has a text for. The
  codes 4 to 6 and the capability-specific codes from 100 on are never returned, so an agent cannot
  learn which capability it lacks.\<close>

theorem host_function_result_codes:
  assumes "host_function E c st = Done (Inr v, st')"
  shows "may_return c v \<and>
    (\<forall>code. v = I32 code \<longrightarrow> code \<in> {OK, ERR_GENERAL, ERR_PERMISSION_DENIED, ERR_NOT_FOUND} \<and>
      error_message code \<in> {''OK'', ''General error'', ''Permission denied'', ''Resource not found''})"
proof -
  have v: "may_return c v" using host_function_yields [of E c] assms by (auto simp: yields_def)
  moreover have "code \<in> {OK, ERR_GENERAL, ERR_PERMISSION_DENIED, ERR_NOT_FOUND}" if "v = I32 code" for code
    using v that by (cases c) auto
  ultimately show ?thesis by (auto simp: error_message_def)
qed

theorem host_function_result_codes_witness:
  "\<exists>st'. host_function (sample_env\<lparr>alloc_ok := alloc_ok sample_env\<rparr>) (FileWrite 0 8 8 3) sample_session = Done (Inr (I32 OK), st') \<and>
     error_message OK = ''OK'' \<and> may_return (FileWrite 0 8 8 3) (I32 OK)"
proof -
  obtain st' where run: "host_function (sample_env\<lparr>alloc_ok := alloc_ok sample_env\<rparr>) (FileWrite 0 8 8 3) sample_session
      = Done (Inr (I32 OK), st')"
    using sample_write by (auto simp: OK_def)
  from host_function_result_codes [OF this] run show ?thesis by (simp add: error_message_def)
qed

end
