(* ===== verification/Hello_Wasm.thy ===== *)
theory Hello_Wasm
  imports Wasm_Runtime Sandbox_Properties
begin

text \<open>
  The agent that ships with the kernel (\<^verbatim>\<open>hello_wasm/src/lib.rs\<close>): a guest that logs a message, asks the host
  for a TCP connection, and logs whether that worked. Where the compiler puts its constants in the linear
  memory, and what else the memory holds at each call, is a parameter.
\<close>

section \<open>The guest\<close>

definition crlf :: string where "crlf = [CHR 0x0D, CHR 0x0A]"

definition hello_msg :: string where
  "hello_msg = ''Attempting cross-environment TCP/IP invocation...''"

definition target_ip :: "u8 list" where
  "target_ip = [93, 184, 216, 34]"

definition http_payload :: string where
  "http_payload = ''GET / HTTP/1.1'' @ crlf @ ''Host: example.com'' @ crlf @ ''Connection: close'' @ crlf @ crlf"

definition s_msg :: string where
  "s_msg = ''TCP SYN request delegated structurally to Host Driver!''"

definition e_msg :: string where
  "e_msg = ''TCP Request failed or Permission Denied.''"

record 'm hello_image =
  msg_ptr :: u32
  ip_ptr :: u32
  payload_ptr :: u32
  s_msg_ptr :: u32
  e_msg_ptr :: u32
  memory_at :: "nat \<Rightarrow> 'm"  \<comment> \<open>at the call with this number\<close>

definition str_len :: "string \<Rightarrow> u32" where
  "str_len s = of_nat (length s)"

fun hello_start :: "'m hello_image \<Rightarrow> 'm guest_history \<Rightarrow> 'm guest_action" where
  "hello_start L [] = GuestCall (Some (memory_at L 0)) (DebugLog (msg_ptr L) (str_len hello_msg))"
| "hello_start L [_] = GuestCall (Some (memory_at L 1)) (TcpRequest (ip_ptr L) 80 (payload_ptr L) (str_len http_payload))"
| "hello_start L [_, (status, _)] =
     (if status = I32 0 then GuestCall (Some (memory_at L 2)) (DebugLog (s_msg_ptr L) (str_len s_msg))
      else GuestCall (Some (memory_at L 2)) (DebugLog (e_msg_ptr L) (str_len e_msg)))"
| "hello_start L (_ # _ # _ # _) = GuestReturn (Some (memory_at L 3))"

section \<open>What the interpreter is relied on for\<close>

text \<open>The interpreter runs the module as compiled: no start section, one entry point with the body above, and
  the constants where the image says.\<close>

definition holds_at :: "('h, 'i, 's, 'k, 'm) host_env \<Rightarrow> 'm \<Rightarrow> u32 \<Rightarrow> u8 list \<Rightarrow> bool" where
  "holds_at E m ptr bytes \<longleftrightarrow> mem_read (wmem E) m (unat ptr) (length bytes) = Some bytes"

definition image_ok :: "('h, 'i, 's, 'k, 'm) host_env \<Rightarrow> 'm hello_image \<Rightarrow> bool" where
  "image_ok E L \<longleftrightarrow>
     holds_at E (memory_at L 0) (msg_ptr L) (as_bytes hello_msg) \<and>
     holds_at E (memory_at L 1) (ip_ptr L) target_ip \<and> holds_at E (memory_at L 1) (payload_ptr L) (as_bytes http_payload) \<and>
     holds_at E (memory_at L 2) (s_msg_ptr L) (as_bytes s_msg) \<and> holds_at E (memory_at L 2) (e_msg_ptr L) (as_bytes e_msg)"

definition runs_hello :: "('w, 'm) wasmi \<Rightarrow> u8 list \<Rightarrow> 'm hello_image \<Rightarrow> bool" where
  "runs_hello W bytes L \<longleftrightarrow>
     (\<exists>w. module_new W bytes = Inr w \<and> (\<exists>m. instantiate W w = Inr m) \<and> start_section W w [] = GuestReturn (Some (memory_at L 0)) \<and>
        has_func W w ''_start'' \<and> signature_error W w ''_start'' = None \<and> func_body W w ''_start'' = hello_start L)"

section \<open>The host functions it calls\<close>

definition agent_line :: "u64 \<Rightarrow> string \<Rightarrow> string" where
  "agent_line pid s = ''[Wasm Agent '' @ dec pid @ ''] '' @ s"

lemma str_len_unat: "length s < 2 ^ 32 \<Longrightarrow> unat (str_len s) = length s"
  by (simp add: str_len_def unat_of_nat)

lemma serial_serial_println: "serial (serial_println s con) = serial con @ s @ newline"
  by (simp add: serial_println_def serial_print_def)

lemma hello_lengths: "length hello_msg \<le> 64" "length http_payload \<le> 64" "length s_msg \<le> 64" "length e_msg \<le> 64"
  by (simp_all add: hello_msg_def http_payload_def s_msg_def e_msg_def crlf_def)

lemma hello_utf8:
  "from_utf8 (as_bytes hello_msg) = Some hello_msg" "from_utf8 (as_bytes s_msg) = Some s_msg" "from_utf8 (as_bytes e_msg) = Some e_msg"
  by code_simp+

lemma debug_log_prints:
  assumes "st_mem st = Some m" and "holds_at E m ptr (as_bytes s)" and "from_utf8 (as_bytes s) = Some s"
    and "length s \<le> 64" and "\<forall>n. n \<le> 64 \<longrightarrow> alloc_ok E n" and "console_ok (k_console (st_k st))"
  shows "\<exists>con. host_function E (DebugLog ptr (str_len s)) st = Done (Inr NoValue, st\<lparr>st_k := (st_k st)\<lparr>k_console := con\<rparr>\<rparr>) \<and>
    console_ok con \<and> serial con = serial (k_console (st_k st)) @ agent_line (st_pid st) s @ newline"
proof -
  have r: "readable E st ptr (str_len s) (as_bytes s)"
    using assms(1,2,4,5) by (simp add: readable_def holds_at_def str_len_unat)
  let ?line = "agent_line (st_pid st) s"
  let ?k = "k_serial ?line (st_k st)"
  have "console_ok (k_console ?k)" using assms(6) by (simp add: k_serial_def)
  then obtain con where con: "println ?line (k_console ?k) = Done con" "console_ok con" "serial con = serial (k_console ?k)"
    using println_total by blast
  have "debug_log E ptr (str_len s) st = Done (Inr (), st\<lparr>st_k := ?k\<lparr>k_console := con\<rparr>\<rparr>)"
    using r con(1) unfolding debug_log_def agent_line_def [symmetric] Let_def
    by (simp add: host_eval host_steps assms(3) host_println_def)
  then show ?thesis
    using con(2,3) by (intro exI [of _ con]) (simp add: hmap_def host_eval k_serial_def serial_serial_println)
qed

definition syn_line :: string where
  "syn_line = ''  -> TCP SYN packet emitted to hardware DMA ring!''"

text \<open>The connection attempt does not depend on what the console shows.\<close>

lemma tcp_syn_console:
  "tcp_syn pf ip port k = Done (sent, k') \<Longrightarrow> tcp_syn pf ip port (k\<lparr>k_console := con\<rparr>) =
    Done (sent, k'\<lparr>k_console := if sent then serial_println syn_line con else con\<rparr>)"
  "tcp_syn pf ip port k = Panic p \<Longrightarrow> tcp_syn pf ip port (k\<lparr>k_console := con\<rparr>) = Panic p"
  unfolding tcp_syn_def syn_line_def
  by (auto simp: obind_Done_iff obind_Panic_iff split: option.splits prod.splits)

definition request_line :: "u64 \<Rightarrow> string" where
  "request_line pid = ''[NET] Agent '' @ dec pid @ '' requesting TCP to '' @ fmt_ip target_ip @ '':'' @ dec (80 :: u32) @
     '' (Payload: '' @ dec (str_len http_payload) @ '' bytes)''"

lemma tcp_request_eval:
  assumes "st_mem st = Some m" and "holds_at E m ip target_ip" and "holds_at E m ptr (as_bytes http_payload)"
    and "\<forall>n. n \<le> 64 \<longrightarrow> alloc_ok E n" and "may_network st"
  shows "host_function E (TcpRequest ip 80 ptr (str_len http_payload)) st =
    map_outcome (\<lambda>(sent, k). (Inr (I32 (if sent then 0 else 1)), st\<lparr>st_k := k\<rparr>))
      (tcp_syn (platform_of E) target_ip 80 (k_serial (request_line (st_pid st)) (st_k st)))"
proof -
  have r: "readable E st ptr (str_len http_payload) (as_bytes http_payload)"
    using assms(1,3,4) hello_lengths(2) by (simp add: readable_def holds_at_def str_len_unat)
  have "length target_ip = 4" by (simp add: target_ip_def)
  then have ip: "guest_read E ip 4 err st = Done (Inr target_ip, st)" for err
    using assms(1,2) by (simp add: guest_read_def host_eval holds_at_def)
  have "host_function E (TcpRequest ip 80 ptr (str_len http_payload)) st =
      hmap I32 (hbind (hkernel (tcp_syn (platform_of E) target_ip 80)) (\<lambda>sent. hreturn (if sent then 0 else 1)))
        (st\<lparr>st_k := k_serial (request_line (st_pid st)) (st_k st)\<rparr>)"
    using assms(1,5) unfolding host_function.simps tcp_request_def
    by (simp add: hmap_def host_eval host_steps guest_buffer_Done [OF r] ip checks_decide request_line_def)
  then show ?thesis
    by (cases "tcp_syn (platform_of E) target_ip 80 (k_serial (request_line (st_pid st)) (st_k st))")
      (auto simp: hmap_def host_eval)
qed

lemma tcp_request_runs:
  assumes "st_mem st = Some m" and "holds_at E m ip target_ip" and "holds_at E m ptr (as_bytes http_payload)"
    and "\<forall>n. n \<le> 64 \<longrightarrow> alloc_ok E n" and "may_network st"
  shows "tcp_syn (platform_of E) target_ip 80 (st_k st) = Done (sent, k') \<Longrightarrow>
      host_function E (TcpRequest ip 80 ptr (str_len http_payload)) st =
      Done (Inr (I32 (if sent then 0 else 1)), st\<lparr>st_k := k'\<lparr>k_console :=
        (if sent then serial_println syn_line else id) (serial_println (request_line (st_pid st)) (k_console (st_k st)))\<rparr>\<rparr>)"
    "tcp_syn (platform_of E) target_ip 80 (st_k st) = Panic p \<Longrightarrow>
      host_function E (TcpRequest ip 80 ptr (str_len http_payload)) st = Panic p"
  unfolding tcp_request_eval [OF assms] k_serial_def by (simp_all add: tcp_syn_console)

section \<open>The whole run\<close>

text \<open>The lines the serial port shows, by whether the agent may use the network and whether the stack took the
  connection.\<close>

definition hello_log :: "u64 \<Rightarrow> usize \<Rightarrow> bool \<Rightarrow> bool \<Rightarrow> string list" where
  "hello_log pid len allowed sent =
     [''[WASM] Engine compiling module of length: '' @ fmt_dec len, agent_line pid hello_msg] @
     (if allowed then request_line pid # (if sent then [syn_line] else [])
      else [''[SECURITY] Agent '' @ dec pid @ '' denied network access'']) @
     [agent_line pid (if allowed \<and> sent then s_msg else e_msg)]"

definition as_lines :: "string list \<Rightarrow> string" where
  "as_lines ls = concat (map (\<lambda>l. l @ newline) ls)"

text \<open>The second call, on both sides of the capability check.\<close>

lemma hello_request:
  assumes "st_mem st = Some (memory_at L 1)" and "image_ok E L" and "\<forall>n. n \<le> 64 \<longrightarrow> alloc_ok E n"
    and "may_network st \<Longrightarrow> tcp_syn (platform_of E) target_ip 80 (st_k st) = Done (sent, k')" and "console_ok (k_console (st_k st))"
  shows "\<exists>con. host_function E (TcpRequest (ip_ptr L) 80 (payload_ptr L) (str_len http_payload)) st =
      Done (Inr (I32 (if may_network st then if sent then 0 else 1 else 2)),
        st\<lparr>st_k := (if may_network st then k' else st_k st)\<lparr>k_console := con\<rparr>\<rparr>) \<and> console_ok con \<and>
    serial con = serial (k_console (st_k st)) @
      as_lines (if may_network st then request_line (st_pid st) # (if sent then [syn_line] else [])
                else [''[SECURITY] Agent '' @ dec (st_pid st) @ '' denied network access''])"
proof (cases "may_network st")
  case True
  have "holds_at E (memory_at L 1) (ip_ptr L) target_ip" "holds_at E (memory_at L 1) (payload_ptr L) (as_bytes http_payload)"
    using assms(2) by (simp_all add: image_ok_def)
  from tcp_request_runs(1) [OF assms(1) this assms(3) True assms(4) [OF True]] show ?thesis
    using True assms(5) by (auto simp: serial_serial_println as_lines_def)
next
  case False
  have "tcp_request E (ip_ptr L) 80 (payload_ptr L) (str_len http_payload) st = denied st '' denied network access''"
    using network_denied(1) [OF assms(1) False] .
  then show ?thesis
    using False assms(5)
    by (intro exI [of _ "serial_println (''[SECURITY] Agent '' @ dec (st_pid st) @ '' denied network access'') (k_console (st_k st))"])
       (simp add: denied_def hmap_def host_eval k_serial_def serial_serial_println as_lines_def)
qed

text \<open>The three calls, on sessions of one process that differ in memory, network and console.\<close>

definition at_call :: "u64 \<Rightarrow> 'm \<Rightarrow> ('i, 's, 'h) kernel \<Rightarrow> console \<Rightarrow> ('m, 'i, 's, 'h) session" where
  "at_call pid m k con = \<lparr>st_pid = pid, st_mem = Some m, st_k = k\<lparr>k_console := con\<rparr>\<rparr>"

lemma at_call_simps [simp]:
  "st_mem (at_call pid m k con) = Some m" "st_pid (at_call pid m k con) = pid" "st_k (at_call pid m k con) = k\<lparr>k_console := con\<rparr>"
  "at_call pid m k con\<lparr>st_mem := Some m'\<rparr> = at_call pid m' k con"
  "at_call pid m k con\<lparr>st_k := k'\<lparr>k_console := con'\<rparr>\<rparr> = at_call pid m k' con'"
  "at_call pid m (k\<lparr>k_console := con'\<rparr>) con = at_call pid m k con"
  by (simp_all add: at_call_def)

lemma at_call_log:
  assumes "holds_at E m ptr (as_bytes s)" and "from_utf8 (as_bytes s) = Some s"
    and "length s \<le> 64" and "\<forall>n. n \<le> 64 \<longrightarrow> alloc_ok E n" and "console_ok con"
  shows "\<exists>con'. host_function E (DebugLog ptr (str_len s)) (at_call pid m k con) = Done (Inr NoValue, at_call pid m k con') \<and>
    console_ok con' \<and> serial con' = serial con @ as_lines [agent_line pid s]"
  using debug_log_prints [of "at_call pid m k con" m E ptr s] assms by (auto simp: as_lines_def)

lemma at_call_request:
  assumes "image_ok E L" and "\<forall>n. n \<le> 64 \<longrightarrow> alloc_ok E n" and "allowed \<Longrightarrow> tcp_syn (platform_of E) target_ip 80 k = Done (sent, kn)" and "console_ok con"
    and "allowed \<longleftrightarrow> Network \<in> set (resolved (k_caps k) (agent_capabilities (k_registry k) (AgentId pid)))"
  shows "\<exists>con'. host_function E (TcpRequest (ip_ptr L) 80 (payload_ptr L) (str_len http_payload)) (at_call pid (memory_at L 1) k con) =
      Done (Inr (I32 (if allowed then if sent then 0 else 1 else 2)), at_call pid (memory_at L 1) (if allowed then kn else k) con') \<and>
    console_ok con' \<and> serial con' = serial con @
      as_lines (if allowed then request_line pid # (if sent then [syn_line] else [])
                else [''[SECURITY] Agent '' @ dec pid @ '' denied network access''])"
proof -
  have allowed: "may_network (at_call pid (memory_at L 1) k con) = allowed"
    by (simp add: may_network_def held_def caller_caps_def assms(5))
  from hello_request [of "at_call pid (memory_at L 1) k con" L E, OF _ assms(1,2)]
  show ?thesis unfolding at_call_simps allowed
    using tcp_syn_console(1) [OF assms(3), of con] assms(4) by (cases allowed) auto
qed

lemma hello_calls:
  assumes "image_ok E L" and "\<forall>n. n \<le> 64 \<longrightarrow> alloc_ok E n" and "allowed \<Longrightarrow> tcp_syn (platform_of E) target_ip 80 k = Done (sent, kn)" and "console_ok con"
    and "allowed \<longleftrightarrow> Network \<in> set (resolved (k_caps k) (agent_capabilities (k_registry k) (AgentId pid)))"
    and "4 \<le> fuel"
  shows "\<exists>con' hist. run_guest E W (hello_start L) fuel [] (at_call pid m k con) =
      Done (Inr hist, at_call pid (memory_at L 3) (if allowed then kn else k) con') \<and> console_ok con' \<and>
    serial con' = serial con @ as_lines (tl (hello_log pid len allowed sent))"
proof -
  note img = assms(1) [unfolded image_ok_def]
  obtain n where fuel: "fuel = Suc (Suc (Suc (Suc n)))" using assms(6) by (metis add_2_eq_Suc le_Suc_ex numeral_Bit0 add.assoc)
  let ?status = "I32 (if allowed then if sent then 0 else 1 else 2)" and ?kn = "if allowed then kn else k"
  let ?last = "if allowed \<and> sent then s_msg else e_msg" and ?ptr = "if allowed \<and> sent then s_msg_ptr L else e_msg_ptr L"
  obtain c1 where c1: "host_function E (DebugLog (msg_ptr L) (str_len hello_msg)) (at_call pid (memory_at L 0) k con)
      = Done (Inr NoValue, at_call pid (memory_at L 0) k c1)" "console_ok c1" "serial c1 = serial con @ as_lines [agent_line pid hello_msg]"
    using at_call_log [OF _ hello_utf8(1) hello_lengths(1) assms(2,4)] img by blast
  obtain c2 where c2: "host_function E (TcpRequest (ip_ptr L) 80 (payload_ptr L) (str_len http_payload)) (at_call pid (memory_at L 1) k c1) =
      Done (Inr ?status, at_call pid (memory_at L 1) ?kn c2)" "console_ok c2"
      "serial c2 = serial c1 @ as_lines (if allowed then request_line pid # (if sent then [syn_line] else [])
                else [''[SECURITY] Agent '' @ dec pid @ '' denied network access''])"
    using at_call_request [OF assms(1-3) c1(2) assms(5)] by blast
  have "holds_at E (memory_at L 2) ?ptr (as_bytes ?last)" "from_utf8 (as_bytes ?last) = Some ?last" "length ?last \<le> 64"
    using img hello_utf8 hello_lengths by simp_all
  from at_call_log [OF this assms(2) c2(2), of pid ?kn] obtain c3 where
    c3: "host_function E (DebugLog ?ptr (str_len ?last)) (at_call pid (memory_at L 2) ?kn c2) = Done (Inr NoValue, at_call pid (memory_at L 2) ?kn c3)"
      "console_ok c3" "serial c3 = serial c2 @ as_lines [agent_line pid ?last]" by blast
  have third: "hello_start L [a, (?status, b)] = GuestCall (Some (memory_at L 2)) (DebugLog ?ptr (str_len ?last))" for a b by simp
  have "run_guest E W (hello_start L) fuel [] (at_call pid m k con) =
      Done (Inr [(NoValue, Some (memory_at L 0)), (?status, Some (memory_at L 1)), (NoValue, Some (memory_at L 2))],
        at_call pid (memory_at L 3) ?kn c3)"
    by (simp add: fuel c1(1) c2(1) c3(1) third del: host_function.simps hello_start.simps(3) One_nat_def)
  then show ?thesis using c1(3) c2(3) c3(2,3) by (auto simp: hello_log_def as_lines_def)
qed

text \<open>A connection attempt that panics takes the kernel with it.\<close>

lemma hello_panics:
  assumes "image_ok E L" and "\<forall>n. n \<le> 64 \<longrightarrow> alloc_ok E n" and "tcp_syn (platform_of E) target_ip 80 k = Panic p" and "console_ok con"
    and "Network \<in> set (resolved (k_caps k) (agent_capabilities (k_registry k) (AgentId pid)))" and "4 \<le> fuel"
  shows "run_guest E W (hello_start L) fuel [] (at_call pid m k con) = Panic p"
proof -
  note img = assms(1) [unfolded image_ok_def]
  obtain n where fuel: "fuel = Suc (Suc n)" using assms(6) by (metis add_2_eq_Suc le_Suc_ex numeral_Bit0 add.assoc)
  obtain c1 where c1: "host_function E (DebugLog (msg_ptr L) (str_len hello_msg)) (at_call pid (memory_at L 0) k con)
      = Done (Inr NoValue, at_call pid (memory_at L 0) k c1)"
    using at_call_log [OF _ hello_utf8(1) hello_lengths(1) assms(2,4)] img by blast
  have "may_network (at_call pid (memory_at L 1) k c1)"
    using assms(5) by (simp add: may_network_def held_def caller_caps_def)
  from tcp_request_runs(2) [OF at_call_simps(1) _ _ assms(2) this, of "ip_ptr L" "payload_ptr L" p]
  have "host_function E (TcpRequest (ip_ptr L) 80 (payload_ptr L) (str_len http_payload)) (at_call pid (memory_at L 1) k c1) = Panic p"
    using img tcp_syn_console(2) [OF assms(3)] by simp
  then show ?thesis by (simp add: fuel c1 del: host_function.simps One_nat_def)
qed

lemma hello_execute:
  assumes "runs_hello W bytes L" and "0 < fuel"
  shows "execute_module E W fuel bytes pid k =
    map_outcome (\<lambda>(r, st). (case r of Inl e \<Rightarrow> Inl (''Execution failed: '' @ e) | Inr _ \<Rightarrow> Inr (), st_k st))
      (run_guest E W (hello_start L) fuel [] (at_call pid (memory_at L 0) k
        (serial_println (''[WASM] Engine compiling module of length: '' @ fmt_dec (length bytes)) (k_console k))))"
proof -
  obtain w m where w: "module_new W bytes = Inr w" "instantiate W w = Inr m" "start_section W w [] = GuestReturn (Some (memory_at L 0))"
    "has_func W w ''_start''" "signature_error W w ''_start'' = None" "func_body W w ''_start'' = hello_start L"
    using assms(1) unfolding runs_hello_def by blast
  define line where "line = ''[WASM] Engine compiling module of length: '' @ fmt_dec (length bytes)"
  obtain n where n: "fuel = Suc n" using assms(2) by (cases fuel) auto
  have start: "run_guest E W (start_section W w) fuel [] \<lparr>st_pid = pid, st_mem = m, st_k = k_serial line k\<rparr> =
      Done (Inr [], at_call pid (memory_at L 0) k (serial_println line (k_console k)))"
    by (simp add: n w(3) at_call_def k_serial_def)
  have entry: "entry_func W w = Some ''_start''" using w(4) by (simp add: entry_func_def)
  let ?run = "run_guest E W (hello_start L) fuel [] (at_call pid (memory_at L 0) k (serial_println line (k_console k)))"
  have "execute_module E W fuel bytes pid k = map_outcome (\<lambda>(r, st). (r, st_k st))
      (call_entry E W fuel w [] (at_call pid (memory_at L 0) k (serial_println line (k_console k))))"
    unfolding execute_module_def line_def [symmetric] Let_def w(1,2) sum.case start obind.simps split_conv ..
  then show ?thesis
    unfolding call_entry_def entry option.case w(5,6) line_def [symmetric] by (cases ?run) auto
qed

section \<open>Property\<close>

text \<open>A memory image with the constants one after the other, a kernel with a network whose agent holds the
  network capability, and one whose agent does not.\<close>

definition sample_image :: "u8 list hello_image" where
  "sample_image = \<lparr>msg_ptr = 0, ip_ptr = 0, payload_ptr = 4, s_msg_ptr = 0, e_msg_ptr = str_len s_msg,
     memory_at = (\<lambda>n. if n = 0 then as_bytes hello_msg else if n = 1 then target_ip @ as_bytes http_payload
                     else as_bytes s_msg @ as_bytes e_msg)\<rparr>"

definition hello_wasmi :: "(unit, u8 list) wasmi" where
  "hello_wasmi =
     \<lparr>module_new = (\<lambda>_. Inr ()), instantiate = (\<lambda>_. Inr None), start_section = (\<lambda>_ _. GuestReturn (Some (memory_at sample_image 0))),
      has_func = (\<lambda>_ f. f = ''_start''), signature_error = (\<lambda>_ _. None), func_body = (\<lambda>_ _. hello_start sample_image),
      show_trap = (\<lambda>s. s)\<rparr>"

lemma sample_image_ok: "image_ok sample_env sample_image"
  using hello_lengths
  by (simp add: image_ok_def holds_at_def sample_env_def list_memory_def sample_image_def str_len_unat target_ip_def)


lemma sample_env_allocates: "\<forall>n. n \<le> 64 \<longrightarrow> alloc_ok sample_env n"
  by (simp add: sample_env_def HEAP_SIZE_def)

lemma online_syn: "\<exists>kn. tcp_syn sample_platform target_ip 80 (st_k online_session) = Done (True, kn)"
proof -
  let ?k = "st_k online_session"
  have net: "k_net ?k = Some sample_net" by (simp add: online_session_def sample_kernel_def)
  have conn: "tcp_connect (stack sample_platform) i (target_ip, 80) 49152 = (Some [], i)" for i
    by (simp add: sample_platform_def sample_stack_def)
  obtain h s where add: "sockets_add (stack sample_platform) [] (sockets sample_net) = (h, s)" by fastforce
  have "net_ok (\<lambda>off hw. off < 8192) 0xC000 (sample_net\<lparr>iface := iface sample_net, sockets := s\<rparr>) ()"
    using sample_net_ok by (simp add: net_ok_update)
  from iface_poll_ok [OF sample_card_follows _ this, of 1] sample_poll_not_stuck [of sample_platform] sample_frames_within_mtu
  obtain net' hw' where "iface_poll sample_platform 1 (sample_net\<lparr>iface := iface sample_net, sockets := s\<rparr>) () = Done (net', hw')"
    by (auto simp: sample_platform_def)
  then show ?thesis by (simp add: tcp_syn_def net conn add)
qed


end
