(* ===== verification/Pci.thy ===== *)
theory Pci
  imports Ports
begin

text \<open>
  The PCI scan (\<^verbatim>\<open>src/pci.rs\<close>): configuration reads through the two ports of the host bridge, and
  the enumeration of all buses, slots and functions.
\<close>

section \<open>Operations\<close>

definition CONFIG_ADDRESS :: u16 where "CONFIG_ADDRESS = 0xCF8"
definition CONFIG_DATA :: u16 where "CONFIG_DATA = 0xCFC"

record pci_device =
  pci_bus :: u8
  pci_slot :: u8
  pci_function :: u8
  vendor_id :: u16
  device_id :: u16
  bar0 :: u32

definition config_address :: "u8 \<Rightarrow> u8 \<Rightarrow> u8 \<Rightarrow> u8 \<Rightarrow> u32" where
  "config_address bus slot func offset =
     push_bit 16 (ucast bus) OR push_bit 11 (ucast slot) OR push_bit 8 (ucast func) OR
     (ucast offset AND 0xFC) OR 0x80000000"

definition pci_read_config :: "'h ports \<Rightarrow> u8 \<Rightarrow> u8 \<Rightarrow> u8 \<Rightarrow> u8 \<Rightarrow> 'h \<Rightarrow> u32 \<times> 'h" where
  "pci_read_config P bus slot func offset hw =
     inl P CONFIG_DATA (outl P CONFIG_ADDRESS (config_address bus slot func offset) hw)"

definition scan_function :: "'h ports \<Rightarrow> u8 \<Rightarrow> u8 \<Rightarrow> u8 \<Rightarrow> pci_device list \<times> 'h \<Rightarrow> pci_device list \<times> 'h" where
  "scan_function P bus slot func = (\<lambda>(devices, hw).
     let (id_reg, hw) = pci_read_config P bus slot func 0 hw;
         vend = ucast (id_reg AND 0xFFFF);
         dev_id = ucast (drop_bit 16 id_reg) in
     if vend \<noteq> 0xFFFF then
       (let (b, hw) = pci_read_config P bus slot func 0x10 hw in
        (devices @ [\<lparr>pci_bus = bus, pci_slot = slot, pci_function = func,
                     vendor_id = vend, device_id = dev_id, bar0 = b\<rparr>], hw))
     else (devices, hw))"

definition scan_slot :: "'h ports \<Rightarrow> u8 \<Rightarrow> u8 \<Rightarrow> pci_device list \<times> 'h \<Rightarrow> pci_device list \<times> 'h" where
  "scan_slot P bus slot = (\<lambda>(devices, hw).
     let (r, hw) = pci_read_config P bus slot 0 0 hw in
     if (ucast (r AND 0xFFFF) :: u16) = 0xFFFF then (devices, hw)
     else
       let (h, hw) = pci_read_config P bus slot 0 0x0C hw;
           header_type = (ucast (drop_bit 16 h AND 0xFF) :: u8);
           functions = (if header_type AND 0x80 \<noteq> 0 then 8 else 1) in
       fold (\<lambda>func. scan_function P bus slot (of_nat func)) [0..<functions] (devices, hw))"

definition scan_buses :: "'h ports \<Rightarrow> 'h \<Rightarrow> pci_device list \<times> 'h" where
  "scan_buses P hw =
     fold (\<lambda>bus. fold (\<lambda>slot. scan_slot P (of_nat bus) (of_nat slot)) [0..<32]) [0..<256] ([], hw)"

section \<open>The address word\<close>

text \<open>Bus, slot, function and register can be read back from the address: different registers have
  different addresses.\<close>

lemma bit_below: "bit w n \<Longrightarrow> n < k" if "unat (w :: u8) < 2 ^ k" for w n
proof -
  assume "bit w n"
  then have "bit (unat w) n" by (simp add: bit_unsigned_iff bit_imp_possible_bit)
  moreover have "take_bit k (unat w) = unat w" using that by (rule take_bit_nat_eq_self)
  ultimately show "n < k" by (metis bit_take_bit_iff)
qed

lemma config_address_bits:
  assumes "slot < 32" and "func < 8" and "n < 32"
  shows "bit (config_address bus slot func offset) n \<longleftrightarrow>
    (if n = 31 then True
     else if n \<ge> 24 then False
     else if n \<ge> 16 then bit bus (n - 16)
     else if n \<ge> 11 then bit slot (n - 11)
     else if n \<ge> 8 then bit func (n - 8)
     else n \<ge> 2 \<and> bit offset n)"
proof -
  have mask: "(0xFC :: u32) = push_bit 2 (mask 6)" by (simp add: mask_eq_exp_minus_1 push_bit_eq_mult)
  have "(0x80000000 :: int) = 2 ^ 31" by simp
  then have top: "bit (0x80000000 :: int) m \<longleftrightarrow> m = 31" for m by (simp only: bit_exp_iff) auto
  have s: "bit slot m \<Longrightarrow> m < 5" and f: "bit func m \<Longrightarrow> m < 3" for m
    using bit_below [of slot 5 m] bit_below [of func 3 m] assms(1,2) by (simp_all add: word_less_nat_alt)
  have b8: "bit (w :: u8) m \<Longrightarrow> m < 8" for w m using bit_imp_le_length by fastforce
  show ?thesis
    unfolding config_address_def mask using assms(3)
    by (auto simp: bit_simps top dest: s f b8)
qed

text \<open>The fields the host bridge decodes from the address port (PCI Local Bus Specification, section
  3.2.2.3.2): enable bit, bus, device, function and register number.\<close>

definition bus_of :: "u32 \<Rightarrow> u8" where "bus_of a = ucast (drop_bit 16 a)"
definition slot_of :: "u32 \<Rightarrow> u8" where "slot_of a = ucast (drop_bit 11 a AND mask 5)"
definition func_of :: "u32 \<Rightarrow> u8" where "func_of a = ucast (drop_bit 8 a AND mask 3)"
definition reg_of :: "u32 \<Rightarrow> u8" where "reg_of a = ucast a AND NOT (mask 2)"

lemma config_address_decode:
  assumes "slot < 32" and "func < 8"
  shows "bit (config_address bus slot func offset) 31"
    and "bus_of (config_address bus slot func offset) = bus"
    and "slot_of (config_address bus slot func offset) = slot"
    and "func_of (config_address bus slot func offset) = func"
    and "reg_of (config_address bus slot func offset) = offset AND NOT (mask 2)"
proof -
  note bits = config_address_bits [OF assms]
  have s: "bit slot m \<Longrightarrow> m < 5" and f: "bit func m \<Longrightarrow> m < 3" for m
    using bit_below [of slot 5 m] bit_below [of func 3 m] assms by (simp_all add: word_less_nat_alt)
  show "bit (config_address bus slot func offset) 31" by (simp add: bits)
  show "bus_of (config_address bus slot func offset) = bus"
    by (rule bit_word_eqI) (simp add: bus_of_def bit_simps bits)
  show "slot_of (config_address bus slot func offset) = slot"
    by (rule bit_word_eqI) (auto simp: slot_of_def bit_simps bits dest: s)
  show "func_of (config_address bus slot func offset) = func"
    by (rule bit_word_eqI) (auto simp: func_of_def bit_simps bits dest: f)
  show "reg_of (config_address bus slot func offset) = offset AND NOT (mask 2)"
    by (rule bit_word_eqI) (auto simp: reg_of_def bit_simps bits)
qed

section \<open>The scan finds the functions of the configuration space\<close>

text \<open>The host bridge: a read of the data port after a write of an enabled address returns the
  register of the configuration space that the address selects.\<close>

type_synonym config_space = "u8 \<Rightarrow> u8 \<Rightarrow> u8 \<Rightarrow> u8 \<Rightarrow> u32"

definition host_bridge :: "'h ports \<Rightarrow> config_space \<Rightarrow> bool" where
  "host_bridge P cfg \<longleftrightarrow>
     (\<forall>a hw. bit a 31 \<longrightarrow>
        fst (inl P CONFIG_DATA (outl P CONFIG_ADDRESS a hw)) = cfg (bus_of a) (slot_of a) (func_of a) (reg_of a))"

definition vendor_at :: "config_space \<Rightarrow> u8 \<Rightarrow> u8 \<Rightarrow> u8 \<Rightarrow> u16" where
  "vendor_at cfg b s f = ucast (cfg b s f 0)"

definition multi_function :: "config_space \<Rightarrow> u8 \<Rightarrow> u8 \<Rightarrow> bool" where
  "multi_function cfg b s \<longleftrightarrow> bit (cfg b s 0 0x0C) 23"

abbreviation answers :: "config_space \<Rightarrow> u8 \<Rightarrow> u8 \<Rightarrow> u8 \<Rightarrow> bool" where
  "answers cfg b s f \<equiv> vendor_at cfg b s f \<noteq> 0xFFFF"

text \<open>A function is visible when its slot answers, the slot has more than one function or this is the
  first, and the function itself answers.\<close>

definition visible :: "config_space \<Rightarrow> u8 \<Rightarrow> u8 \<Rightarrow> u8 \<Rightarrow> bool" where
  "visible cfg b s f \<longleftrightarrow>
     answers cfg b s 0 \<and> (f = 0 \<or> multi_function cfg b s) \<and> answers cfg b s f"

definition device_at :: "config_space \<Rightarrow> u8 \<Rightarrow> u8 \<Rightarrow> u8 \<Rightarrow> pci_device" where
  "device_at cfg b s f = \<lparr>pci_bus = b, pci_slot = s, pci_function = f, vendor_id = vendor_at cfg b s f,
     device_id = ucast (drop_bit 16 (cfg b s f 0)), bar0 = cfg b s f 0x10\<rparr>"

lemma device_at_fields [simp]:
  "pci_bus (device_at cfg b s f) = b" "pci_slot (device_at cfg b s f) = s" "pci_function (device_at cfg b s f) = f"
  by (simp_all add: device_at_def)

definition location :: "pci_device \<Rightarrow> u8 \<times> u8 \<times> u8" where
  "location d = (pci_bus d, pci_slot d, pci_function d)"

lemma pci_read_config_value:
  assumes "host_bridge P cfg" and "s < 32" and "f < 8"
  shows "fst (pci_read_config P b s f r hw) = cfg b s f (r AND NOT (mask 2))"
  using assms(1) config_address_decode [OF assms(2,3), of b r]
  by (simp add: pci_read_config_def host_bridge_def)

lemma low_half: "ucast (r AND 0xFFFF :: u32) = (ucast r :: u16)"
proof -
  have m: "(0xFFFF :: u32) = mask 16" by (simp add: mask_eq_exp_minus_1)
  show ?thesis unfolding m by (rule bit_word_eqI) (simp add: bit_simps)
qed

lemma header_bit: "(ucast (drop_bit 16 h AND 0xFF :: u32) :: u8) AND 0x80 \<noteq> 0 \<longleftrightarrow> bit h 23"
proof -
  have m: "(0xFF :: u32) = mask 8" by (simp add: mask_eq_exp_minus_1)
  have "(0x80 :: u8) = push_bit 7 1" by simp
  then have "(w :: u8) AND 0x80 \<noteq> 0 \<longleftrightarrow> bit w 7" for w by (simp only: bit_iff_and_push_bit_not_eq_0)
  then show ?thesis unfolding m by (simp add: bit_simps)
qed

text \<open>A loop whose body appends to the device list.\<close>

lemma fold_appends:
  assumes "\<And>x ds hw. x \<in> set xs \<Longrightarrow> fst (f x (ds, hw)) = ds @ g x"
  shows "fst (fold f xs (ds, hw)) = ds @ concat (map g xs)"
  using assms
proof (induction xs arbitrary: ds hw)
  case (Cons x xs)
  obtain ds' hw' where fx: "f x (ds, hw) = (ds', hw')" by fastforce
  then have "ds' = ds @ g x" using Cons.prems [of x ds hw] by simp
  with fx Cons show ?case by simp
qed simp

lemma scan_function_appends:
  assumes "host_bridge P cfg" and "s < 32" and "f < 8"
  shows "fst (scan_function P b s f (ds, hw)) =
    ds @ (if answers cfg b s f then [device_at cfg b s f] else [])"
  using pci_read_config_value [OF assms, of b 0 hw] pci_read_config_value [OF assms, of b "0x10"]
  by (auto simp: scan_function_def low_half vendor_at_def device_at_def Let_def mask_eq_exp_minus_1
      split: prod.splits)
     (metis fst_conv)+

lemma of_nat_u8: "n < 256 \<Longrightarrow> unat (of_nat n :: u8) = n"
  by (simp add: unat_of_nat)

definition bytes_below :: "nat \<Rightarrow> u8 list" where
  "bytes_below n = map of_nat [0..<n]"

lemma bytes_below_range [simp]: "n \<le> 256 \<Longrightarrow> set (bytes_below n) = {w. unat w < n}"
proof (intro equalityI subsetI)
  fix w :: u8
  assume "w \<in> {w. unat w < n}"
  then have "w = of_nat (unat w)" "unat w \<in> set [0..<n]" by auto
  then show "w \<in> set (bytes_below n)" unfolding bytes_below_def set_map by (rule image_eqI)
qed (auto simp: bytes_below_def of_nat_u8)

lemma byte_below_256 [simp]: "unat (b :: u8) < 256"
  using unsigned_less [of b] by simp

lemma bytes_below_distinct: "n \<le> 256 \<Longrightarrow> distinct (bytes_below n)"
  by (auto simp: bytes_below_def distinct_map intro!: inj_onI) (metis of_nat_u8 less_le_trans)

lemma concat_map_if: "concat (map (\<lambda>x. if p x then [h x] else []) xs) = map h (filter p xs)"
  by (induction xs) simp_all

lemma visible_functions:
  "filter (visible cfg b s) (bytes_below 8) =
   (if answers cfg b s 0
    then filter (answers cfg b s) (bytes_below (if multi_function cfg b s then 8 else 1)) else [])"
proof (cases "multi_function cfg b s")
  case True
  then show ?thesis by (auto simp: visible_def intro!: filter_cong)
next
  case False
  have "filter (\<lambda>f. f = 0) (bytes_below 8) = [0]" "bytes_below (Suc 0) = [0]"
    by (simp_all add: bytes_below_def upt_rec)
  moreover have "filter (visible cfg b s) (bytes_below 8) =
      filter (\<lambda>f. answers cfg b s 0) (filter (\<lambda>f. f = 0) (bytes_below 8))"
    using False by (auto simp: visible_def filter_filter intro!: filter_cong)
  ultimately show ?thesis using False by simp
qed

lemma scan_slot_appends:
  assumes "host_bridge P cfg" and "s < 32"
  shows "fst (scan_slot P b s (ds, hw)) = ds @ map (device_at cfg b s) (filter (visible cfg b s) (bytes_below 8))"
proof -
  obtain r hw1 where r: "pci_read_config P b s 0 0 hw = (r, hw1)" by fastforce
  obtain h hw2 where h: "pci_read_config P b s 0 0x0C hw1 = (h, hw2)" by fastforce
  have rv: "r = cfg b s 0 0" and hv: "h = cfg b s 0 0x0C"
    using pci_read_config_value [OF assms, of 0 b 0 hw] pci_read_config_value [OF assms, of 0 b "0x0C" hw1] r h
    by (simp_all add: mask_eq_exp_minus_1)
  define n where "n = (if multi_function cfg b s then 8 else (1 :: nat))"
  have "f < n \<Longrightarrow> (of_nat f :: u8) < 8" for f
    by (auto simp: n_def word_less_nat_alt of_nat_u8 split: if_splits)
  then have loop: "fst (fold (\<lambda>f. scan_function P b s (of_nat f)) [0..<n] (ds, hw2)) =
      ds @ concat (map (\<lambda>f. if answers cfg b s (of_nat f) then [device_at cfg b s (of_nat f)] else []) [0..<n])"
    by (intro fold_appends) (simp add: scan_function_appends [OF assms])
  have "scan_slot P b s (ds, hw) =
      (if answers cfg b s 0 then fold (\<lambda>f. scan_function P b s (of_nat f)) [0..<n] (ds, hw2) else (ds, hw1))"
    by (simp add: scan_slot_def r h rv hv low_half vendor_at_def header_bit multi_function_def n_def)
  then have "fst (scan_slot P b s (ds, hw)) =
      ds @ (if answers cfg b s 0 then map (device_at cfg b s) (filter (answers cfg b s) (bytes_below n)) else [])"
    using loop by (simp add: concat_map_if bytes_below_def filter_map o_def)
  also have "\<dots> = ds @ map (device_at cfg b s) (filter (visible cfg b s) (bytes_below 8))"
    by (simp add: visible_functions n_def)
  finally show ?thesis .
qed

definition functions_of :: "config_space \<Rightarrow> (u8 \<times> u8 \<times> u8) list" where
  "functions_of cfg = filter (\<lambda>(b, s, f). visible cfg b s f)
     (List.product (bytes_below 256) (List.product (bytes_below 32) (bytes_below 8)))"

lemma product_filter_concat:
  "map (\<lambda>(b, s, f). d b s f) (filter (\<lambda>(b, s, f). v b s f) (List.product xs (List.product ys zs))) =
   concat (map (\<lambda>b. concat (map (\<lambda>s. map (d b s) (filter (v b s) zs)) ys)) xs)"
proof -
  have inner: "map (\<lambda>(b, s, f). d b s f) (filter (\<lambda>(b, s, f). v b s f) (map (Pair b) (List.product ys zs))) =
      concat (map (\<lambda>s. map (d b s) (filter (v b s) zs)) ys)" for b
    by (induction ys) (simp_all add: filter_map o_def)
  show ?thesis by (induction xs) (simp_all add: inner)
qed

lemma scan_buses_list:
  assumes "host_bridge P cfg"
  shows "fst (scan_buses P hw) = map (\<lambda>(b, s, f). device_at cfg b s f) (functions_of cfg)"
proof -
  let ?slot = "\<lambda>b s. map (device_at cfg b s) (filter (visible cfg b s) (bytes_below 8))"
  have slot: "x < 32 \<Longrightarrow> (of_nat x :: u8) < 32" for x
    by (simp add: word_less_nat_alt of_nat_u8)
  have bus: "fst (fold (\<lambda>s. scan_slot P b (of_nat s)) [0..<32] (ds, hw)) =
      ds @ concat (map (\<lambda>s. ?slot b (of_nat s)) [0..<32])" for b ds hw
    by (rule fold_appends) (simp add: scan_slot_appends [OF assms] slot)
  have "fst (scan_buses P hw) =
      [] @ concat (map (\<lambda>b. concat (map (\<lambda>s. ?slot (of_nat b) (of_nat s)) [0..<32])) [0..<256])"
    unfolding scan_buses_def by (rule fold_appends) (rule bus)
  also have "\<dots> = concat (map (\<lambda>b. concat (map (?slot b) (bytes_below 32))) (bytes_below 256))"
    by (simp only: bytes_below_def [of 32] bytes_below_def [of 256] map_map o_def append_Nil)
  finally show ?thesis by (simp only: functions_of_def product_filter_concat)
qed

text \<open>A machine with one RTL8139 at slot 3 of bus 0, whose bridge remembers the last address.\<close>

definition sample_config :: config_space where
  "sample_config b s f r =
     (if b = 0 \<and> s = 3 \<and> f = 0 then if r = 0 then 0x813910EC else if r = 0x10 then 0xC001 else 0
      else 0xFFFFFFFF)"

definition sample_bridge :: "config_space \<Rightarrow> u32 ports" where
  "sample_bridge cfg =
     \<lparr>inb = (\<lambda>p a. (0, a)), outb = (\<lambda>p v a. a),
      inl = (\<lambda>p a. (if p = CONFIG_DATA \<and> bit a 31 then cfg (bus_of a) (slot_of a) (func_of a) (reg_of a) else 0xFFFFFFFF, a)),
      outl = (\<lambda>p v a. if p = CONFIG_ADDRESS then v else a)\<rparr>"

lemma sample_bridge_ok: "host_bridge (sample_bridge cfg) cfg"
  by (simp add: host_bridge_def sample_bridge_def)

lemma scan_buses_distinct:
  assumes "host_bridge P cfg"
  shows "distinct (map location (fst (scan_buses P hw)))"
proof -
  have "location \<circ> (\<lambda>(b, s, f). device_at cfg b s f) = id"
    by (auto simp: location_def device_at_def)
  then have "map location (fst (scan_buses P hw)) = functions_of cfg"
    by (simp add: scan_buses_list [OF assms])
  then show ?thesis by (simp add: functions_of_def distinct_product bytes_below_distinct)
qed

lemma functions_of_iff: "(b, s, f) \<in> set (functions_of cfg) \<longleftrightarrow> s < 32 \<and> f < 8 \<and> visible cfg b s f"
  by (auto simp: functions_of_def word_less_nat_alt)

text \<open>C31: On a machine whose host bridge answers from a configuration space, the scan reports every visible
  function of every slot exactly once, with its own identifiers and base address, and nothing
  else.\<close>

theorem scan_buses_exact:
  assumes "host_bridge P cfg"
  shows "distinct (map location (fst (scan_buses P hw))) \<and>
    (d \<in> set (fst (scan_buses P hw)) \<longleftrightarrow>
       pci_slot d < 32 \<and> pci_function d < 8 \<and> visible cfg (pci_bus d) (pci_slot d) (pci_function d) \<and>
       d = device_at cfg (pci_bus d) (pci_slot d) (pci_function d))"
  unfolding scan_buses_list [OF assms] set_map
  using scan_buses_distinct [OF assms, of hw] functions_of_iff [of _ _ _ cfg]
  by (auto simp: scan_buses_list [OF assms] intro: image_eqI [where x = "location d"] simp: location_def)

theorem scan_buses_exact_witness:
  "host_bridge (sample_bridge sample_config) sample_config \<and>
   distinct (map location (fst (scan_buses (sample_bridge sample_config) 0))) \<and>
   \<lparr>pci_bus = 0, pci_slot = 3, pci_function = 0, vendor_id = 0x10EC, device_id = 0x8139, bar0 = 0xC001\<rparr>
     \<in> set (fst (scan_buses (sample_bridge sample_config) 0))"
  using scan_buses_exact [OF sample_bridge_ok [of sample_config], where hw = 0]
  by (simp add: sample_bridge_ok visible_def device_at_def vendor_at_def sample_config_def)

end
