(* ===== verification/Initramfs.thy ===== *)
theory Initramfs
  imports Vfs Console
begin

text \<open>
  The boot archive loader, \<^verbatim>\<open>src/initramfs.rs\<close>: walks a USTAR archive in memory, 512-byte
  block by block, and registers each regular file in the virtual file system.
\<close>

section \<open>Operations\<close>

record mount =
  mnt_count :: usize
  mnt_vfs :: vfs
  mnt_console :: console

text \<open>One iteration of the loop either leaves it or goes on at a new offset.\<close>

datatype entry_step = Break mount | Next usize mount

text \<open>\<^verbatim>\<open>(size + 511) & !511\<close> on 64-bit words.\<close>

definition block_align :: "usize \<Rightarrow> usize outcome" where
  "block_align sz = obind (usize_add sz 511) (\<lambda>n. Done (unat ((of_nat n :: u64) AND NOT 511)))"

definition parse_name :: "u8 list \<Rightarrow> u8 list outcome" where
  "parse_name header =
     obind (slice_range header 0 100) (\<lambda>field.
       slice_range header 0 (unwrap_or (position (\<lambda>c. c = 0) field) 100))"

definition parse_size :: "u8 list \<Rightarrow> usize outcome" where
  "parse_size header =
     obind (slice_range header 124 136) (\<lambda>field.
     let size_str_end = unwrap_or (position (\<lambda>c. c = 0 \<or> c = 0x20) field) 12 in
     obind (slice_range header 124 (124 + size_str_end)) (\<lambda>bytes.
     let size_str = unwrap_or (from_utf8 bytes) ''0'' in
     Done (unwrap_or (from_str_radix_8 size_str) 0)))"

definition hex_dump :: "u8 list \<Rightarrow> string" where
  "hex_dump bs = concat (map (\<lambda>b. fmt_02x b @ '' '') bs)"

definition mount_file :: "string \<Rightarrow> usize \<Rightarrow> u8 list \<Rightarrow> mount \<Rightarrow> mount outcome" where
  "mount_file name sz file_data m =
     obind (usize_add (mnt_count m) 1) (\<lambda>count.
     obind (slice_range file_data 0 (min sz 120)) (\<lambda>dump.
     let con = serial_println (''[INITRAMFS] Mounted: '' @ name @ '' ('' @ fmt_dec sz @ '' bytes)'') (mnt_console m);
         con = serial_print ''  [HEX] '' con;
         con = serial_print (hex_dump dump) con;
         con = serial_println '''' con in
     Done \<lparr>mnt_count = count, mnt_vfs = register_file name file_data (mnt_vfs m), mnt_console = con\<rparr>))"

text \<open>The part of an iteration after the name was read: size, type flag, contents.\<close>

definition mount_entry :: "u8 list \<Rightarrow> u8 list \<Rightarrow> string \<Rightarrow> usize \<Rightarrow> mount \<Rightarrow> entry_step outcome" where
  "mount_entry archive header name offset m =
     obind (parse_size header) (\<lambda>sz.
     obind (index header 156) (\<lambda>type_flag.
     obind (usize_add offset 512) (\<lambda>offset.
     let skip = (\<lambda>m. obind (block_align sz) (\<lambda>aligned_size.
                   obind (usize_add offset aligned_size) (\<lambda>offset. Done (Next offset m)))) in
     if type_flag = 0x30 \<or> type_flag = 0 then
       obind (usize_add offset sz) (\<lambda>file_end.
       if file_end > length archive then
         Done (Break (m\<lparr>mnt_console := serial_println
           (''[INITRAMFS] Warning: File '' @ name @ '' extends beyond archive boundaries'') (mnt_console m)\<rparr>))
       else
         obind (slice_range archive offset file_end) (\<lambda>file_data.
         obind (mount_file name sz file_data m) skip))
     else skip m)))"

definition parse_entry :: "u8 list \<Rightarrow> usize \<Rightarrow> mount \<Rightarrow> entry_step outcome" where
  "parse_entry archive offset m =
     obind (usize_add offset 512) (\<lambda>header_end.
     if header_end \<le> length archive then
       obind (slice_range archive offset header_end) (\<lambda>header.
       obind (index header 0) (\<lambda>first.
       if first = 0 then Done (Break m)
       else
         obind (parse_name header) (\<lambda>name_bytes.
         case from_utf8 name_bytes of
           None \<Rightarrow>
             obind (usize_add offset 512) (\<lambda>offset.
               Done (Next offset (m\<lparr>mnt_console :=
                 serial_println ''[INITRAMFS] Skipped file with invalid UTF-8 name'' (mnt_console m)\<rparr>)))
         | Some name \<Rightarrow> mount_entry archive header name offset m)))
     else Done (Break m))"

lemma mount_entry_Next: "mount_entry archive header name offset m = Done (Next offset' m') \<Longrightarrow> offset < offset'"
  by (auto simp: mount_entry_def Let_def outcome_simps split: if_splits)

lemma parse_entry_Next:
  assumes "parse_entry archive offset m = Done (Next offset' m')"
  shows "offset + 512 \<le> length archive \<and> offset < offset'"
  using assms
  by (auto simp: parse_entry_def outcome_simps dest: mount_entry_Next split: if_splits option.splits)

function mount_loop :: "u8 list \<Rightarrow> usize \<Rightarrow> mount \<Rightarrow> mount outcome" where
  "mount_loop archive offset m =
     obind (parse_entry archive offset m) (\<lambda>step.
       case step of Break m' \<Rightarrow> Done m' | Next offset' m' \<Rightarrow> mount_loop archive offset' m')"
  by pat_completeness auto
termination
proof (relation "measure (\<lambda>(archive, offset, m). length archive - offset)")
  fix archive offset m step offset' m'
  assume "parse_entry archive offset m = Done step" and "step = Next offset' m'"
  then have "offset + 512 \<le> length archive \<and> offset < offset'"
    using parse_entry_Next by blast
  then show "((archive, offset', m'), archive, offset, m) \<in> measure (\<lambda>(archive, offset, m). length archive - offset)"
    by auto
qed simp

declare mount_loop.simps [simp del]

definition initramfs_init :: "u8 list \<Rightarrow> vfs \<Rightarrow> console \<Rightarrow> ((string + usize) \<times> vfs \<times> console) outcome" where
  "initramfs_init archive fs con =
     (if archive = [] then Done (Inl ''Archive is empty'', fs, con)
      else map_outcome (\<lambda>m. (Inr (mnt_count m), mnt_vfs m, mnt_console m))
        (mount_loop archive 0 \<lparr>mnt_count = 0, mnt_vfs = fs, mnt_console = con\<rparr>))"

section \<open>No panic, whatever the archive holds\<close>

lemma block_align_word: "unat ((w :: u64) AND NOT 511) = unat w div 512 * 512"
proof -
  have "(511 :: u64) = mask 9" by (simp add: mask_eq_exp_minus_1)
  then show ?thesis using unat_and_not_mask [of w 9] by simp
qed

lemma block_align_Done:
  assumes "n + 511 < 2 ^ 64"
  shows "block_align n = Done ((n + 511) div 512 * 512)"
proof -
  have "unat (of_nat (n + 511) :: u64) = n + 511"
    using assms by (subst unat_of_nat) simp
  moreover have "usize_add n 511 = Done (n + 511)"
    using assms by (simp add: usize_bound_def)
  ultimately show ?thesis by (simp only: block_align_def block_align_word obind.simps)
qed

lemma parse_name_Done:
  assumes "length header = 512"
  shows "parse_name header = Done (takeWhile (\<lambda>c. c \<noteq> 0) (take 100 header))"
proof -
  let ?f = "take 100 header"
  have "unwrap_or (position (\<lambda>c. c = 0) ?f) 100 \<le> 100"
    using unwrap_position_le [of "\<lambda>c. c = 0" ?f] assms by simp
  moreover from this have "take (unwrap_or (position (\<lambda>c. c = 0) ?f) 100) header
      = takeWhile (\<lambda>c. c \<noteq> 0) ?f"
    using take_position [of "\<lambda>c. c = 0" ?f] assms by (simp add: min_def)
  ultimately show ?thesis using assms by (simp add: parse_name_def)
qed

definition size_field_value :: "u8 list \<Rightarrow> usize" where
  "size_field_value field =
     unwrap_or (from_str_radix_8 (unwrap_or (from_utf8 (takeWhile (\<lambda>c. c \<noteq> 0 \<and> c \<noteq> 0x20) field)) ''0'')) 0"

lemma parse_size_Done:
  assumes "length header = 512"
  shows "parse_size header = Done (size_field_value (take 12 (drop 124 header)))"
proof -
  let ?p = "\<lambda>c :: u8. c = 0 \<or> c = 0x20" and ?f = "take 12 (drop 124 header)"
  have le: "unwrap_or (position ?p ?f) 12 \<le> 12"
    using unwrap_position_le [of ?p ?f] assms by simp
  have "take (unwrap_or (position ?p ?f) 12) (drop 124 header) = takeWhile (\<lambda>c. \<not> ?p c) ?f"
    using take_position [of ?p ?f] le assms by (simp add: min_def)
  then show ?thesis using le assms by (simp add: parse_size_def size_field_value_def Let_def)
qed

lemma size_field_value_bound:
  assumes "length field = 12"
  shows "size_field_value field < 2 ^ 36"
proof -
  let ?b = "takeWhile (\<lambda>c. c \<noteq> 0 \<and> c \<noteq> 0x20) field"
  let ?s = "unwrap_or (from_utf8 ?b) ''0''"
  have "length ?b \<le> 12"
    using length_takeWhile_le [of "\<lambda>c. c \<noteq> 0 \<and> c \<noteq> 0x20" field] unfolding assms .
  then have len: "length ?s \<le> 12"
    by (cases "valid_utf8 ?b") (simp_all add: from_utf8_def)
  have "unwrap_or (from_str_radix_8 ?s) 0 < 8 ^ 12"
  proof (cases "from_str_radix_8 ?s")
    case None
    then show ?thesis by simp
  next
    case (Some v)
    have "v < 8 ^ length ?s" using Some by (rule from_str_radix_8_bound)
    also have "\<dots> \<le> 8 ^ 12" using len by (intro power_increasing) auto
    finally show ?thesis using Some by simp
  qed
  then show ?thesis by (simp add: size_field_value_def)
qed

lemma mount_file_Done:
  assumes "mnt_count m + 1 < usize_bound" and "length dat = sz"
  shows "\<exists>m'. mount_file name sz dat m = Done m' \<and> mnt_count m' = mnt_count m + 1 \<and>
    mnt_vfs m' = register_file name dat (mnt_vfs m) \<and> vga (mnt_console m') = vga (mnt_console m)"
  using assms by (simp add: mount_file_def Let_def)

text \<open>
  What the loop keeps: the offset never runs more than one entry past the archive, and no more
  files were counted than bytes were passed.
\<close>

definition loop_bound :: "u8 list \<Rightarrow> usize \<Rightarrow> mount \<Rightarrow> bool" where
  "loop_bound archive offset m \<longleftrightarrow> offset \<le> length archive + 2 ^ 37 \<and> mnt_count m \<le> offset"

lemma loop_bound_exact:
  assumes "length archive \<le> isize_max" and "loop_bound archive offset m"
  shows "offset + 512 < usize_bound" "mnt_count m + 1 < usize_bound"
  using assms by (simp_all add: loop_bound_def isize_max_def usize_bound_def)

lemma mount_entry_total:
  assumes "length archive \<le> isize_max" and "loop_bound archive offset m"
    and "offset + 512 \<le> length archive" and "length header = 512"
  shows "\<exists>step. mount_entry archive header name offset m = Done step \<and>
    (\<forall>offset' m'. step = Next offset' m' \<longrightarrow> loop_bound archive offset' m')"
proof -
  obtain sz where sz: "parse_size header = Done sz" "sz < 2 ^ 36"
    using parse_size_Done [OF assms(4)] size_field_value_bound assms(4) by simp
  have "(sz + 511) div 512 * 512 \<le> sz + 511" by simp
  then have bounds: "offset + 512 + sz < usize_bound" "sz + 511 < 2 ^ 64"
    "offset + 512 + (sz + 511) div 512 * 512 < usize_bound"
    using sz(2) assms(1,3) by (simp_all add: isize_max_def usize_bound_def)
  have al: "block_align sz = Done ((sz + 511) div 512 * 512)"
    using bounds(2) by (rule block_align_Done)
  have off: "usize_add offset 512 = Done (offset + 512)"
    using loop_bound_exact [OF assms(1,2)] by simp
  have next_ok: "loop_bound archive (offset + 512 + (sz + 511) div 512 * 512) m'"
    if "mnt_count m' \<le> mnt_count m + 1" for m'
    using that assms(2,3) sz(2) by (simp add: loop_bound_def)
  have skip: "obind (block_align sz) (\<lambda>a. obind (usize_add (offset + 512) a) (\<lambda>o'. Done (Next o' m')))
      = Done (Next (offset + 512 + (sz + 511) div 512 * 512) m')" for m'
    using al bounds(3) by simp
  have flag: "index header 156 = Done (header ! 156)" using assms(4) by simp
  note unfolded = mount_entry_def sz(1) flag off obind.simps Let_def skip
  consider (regular) "header ! 156 = 0x30 \<or> header ! 156 = 0" "offset + 512 + sz \<le> length archive"
    | (long) "header ! 156 = 0x30 \<or> header ! 156 = 0" "length archive < offset + 512 + sz"
    | (other) "\<not> (header ! 156 = 0x30 \<or> header ! 156 = 0)"
    by linarith
  then show ?thesis
  proof cases
    case regular
    let ?dat = "take sz (drop (offset + 512) archive)"
    have "length ?dat = sz" using regular by (auto simp: min_def)
    then obtain m' where m': "mount_file name sz ?dat m = Done m'" "mnt_count m' = mnt_count m + 1"
      using mount_file_Done [OF loop_bound_exact(2) [OF assms(1,2)]] by blast
    have "mount_entry archive header name offset m = Done (Next (offset + 512 + (sz + 511) div 512 * 512) m')"
      unfolding unfolded using regular bounds(1) m'(1) by (simp add: skip)
    with next_ok [of m'] m'(2) show ?thesis by simp
  next
    case long
    then show ?thesis unfolding unfolded using bounds(1) by simp
  next
    case other
    then have "mount_entry archive header name offset m = Done (Next (offset + 512 + (sz + 511) div 512 * 512) m)"
      unfolding unfolded by (simp add: skip)
    with next_ok [of m] show ?thesis by simp
  qed
qed

lemma parse_entry_total:
  assumes "length archive \<le> isize_max" and "loop_bound archive offset m"
  shows "\<exists>step. parse_entry archive offset m = Done step \<and>
    (\<forall>offset' m'. step = Next offset' m' \<longrightarrow> loop_bound archive offset' m')"
proof (cases "offset + 512 \<le> length archive")
  case True
  let ?h = "take 512 (drop offset archive)"
  have h: "length ?h = 512" using True by simp
  have nxt: "loop_bound archive (offset + 512) (m\<lparr>mnt_console := c\<rparr>)" for c
    using assms(2) True by (simp add: loop_bound_def)
  show ?thesis
    using True h nxt loop_bound_exact [OF assms] mount_entry_total [OF assms True h]
    by (auto simp: parse_entry_def parse_name_Done split: option.split)
next
  case False
  then show ?thesis using loop_bound_exact [OF assms] by (simp add: parse_entry_def)
qed

lemma mount_loop_total:
  assumes "length archive \<le> isize_max" and "loop_bound archive offset m"
  shows "\<exists>m'. mount_loop archive offset m = Done m'"
  using assms
proof (induction archive offset m rule: mount_loop.induct)
  case (1 archive offset m)
  obtain step where step: "parse_entry archive offset m = Done step"
    "\<forall>offset' m'. step = Next offset' m' \<longrightarrow> loop_bound archive offset' m'"
    using parse_entry_total [OF 1(2,3)] by blast
  show ?case
  proof (cases step)
    case (Break m')
    then show ?thesis using step by (simp add: mount_loop.simps [of archive offset m])
  next
    case (Next offset' m')
    then have "\<exists>m''. mount_loop archive offset' m' = Done m''"
      using 1 step by blast
    then show ?thesis using step Next by (simp add: mount_loop.simps [of archive offset m])
  qed
qed

section \<open>What the loop mounts\<close>

definition from_archive :: "u8 list \<Rightarrow> virtual_file \<Rightarrow> bool" where
  "from_archive archive f \<longleftrightarrow> vf_read_only f \<and> vf_owner_pid f = 0 \<and>
     (\<exists>k n. k + n \<le> length archive \<and> vf_data f = take n (drop k archive))"

definition mounts :: "u8 list \<Rightarrow> mount \<Rightarrow> mount \<Rightarrow> bool" where
  "mounts archive m m' \<longleftrightarrow> (\<exists>new. mnt_vfs m' = mnt_vfs m @ new \<and> mnt_count m' = mnt_count m + length new \<and>
     list_all (from_archive archive) new \<and> vga (mnt_console m') = vga (mnt_console m))"

lemma mounts_refl: "mnt_vfs m' = mnt_vfs m \<Longrightarrow> mnt_count m' = mnt_count m \<Longrightarrow>
    vga (mnt_console m') = vga (mnt_console m) \<Longrightarrow> mounts archive m m'"
  by (simp add: mounts_def)

lemma mounts_trans: "mounts archive m1 m2 \<Longrightarrow> mounts archive m2 m3 \<Longrightarrow> mounts archive m1 m3"
  unfolding mounts_def by (elim exE) (force simp: add.assoc)

fun step_mount :: "entry_step \<Rightarrow> mount" where
  "step_mount (Break m) = m"
| "step_mount (Next offset m) = m"

lemma mount_file_mounts:
  assumes "mount_file name sz (take sz (drop k archive)) m = Done m'" and "k + sz \<le> length archive"
  shows "mounts archive m m'"
proof -
  have "from_archive archive \<lparr>vf_name = name, vf_data = take sz (drop k archive), vf_owner_pid = 0, vf_read_only = True\<rparr>"
    using assms(2) by (auto simp: from_archive_def)
  then show ?thesis
    using assms(1) by (auto simp: mount_file_def Let_def outcome_simps mounts_def register_file_def)
qed

lemma mount_entry_mounts:
  assumes "mount_entry archive header name offset m = Done step"
  shows "mounts archive m (step_mount step)"
  using assms
  by (auto simp: mount_entry_def Let_def outcome_simps split: if_splits
      intro: mounts_refl mount_file_mounts)

lemma parse_entry_mounts:
  assumes "parse_entry archive offset m = Done step"
  shows "mounts archive m (step_mount step)"
  using assms
  by (auto simp: parse_entry_def outcome_simps split: if_splits option.splits
      intro: mounts_refl mount_entry_mounts)

lemma mount_loop_mounts:
  assumes "mount_loop archive offset m = Done m'"
  shows "mounts archive m m'"
  using assms
proof (induction archive offset m rule: mount_loop.induct)
  case (1 archive offset m)
  from 1(2) obtain step where step: "parse_entry archive offset m = Done step"
    and rest: "(case step of Break m1 \<Rightarrow> Done m1 | Next o1 m1 \<Rightarrow> mount_loop archive o1 m1) = Done m'"
    by (subst (asm) mount_loop.simps) (auto simp: obind_Done_iff)
  have now: "mounts archive m (step_mount step)" using step by (rule parse_entry_mounts)
  show ?case
  proof (cases step)
    case (Break m1)
    with now rest show ?thesis by simp
  next
    case (Next o1 m1)
    with 1(1) step rest have "mounts archive m1 m'" by simp
    with now Next show ?thesis by (simp add: mounts_trans)
  qed
qed

text \<open>At most one file per block header.\<close>

lemma mount_entry_count:
  assumes "mount_entry archive header name offset m = Done step"
  shows "case step of Break m' \<Rightarrow> mnt_count m' = mnt_count m | Next offset' m' \<Rightarrow> mnt_count m' \<le> Suc (mnt_count m)"
  using assms
  by (auto simp: mount_entry_def mount_file_def Let_def outcome_simps split: if_splits)

lemma parse_entry_count:
  assumes "parse_entry archive offset m = Done step"
  shows "case step of Break m' \<Rightarrow> mnt_count m' = mnt_count m | Next offset' m' \<Rightarrow> mnt_count m' \<le> Suc (mnt_count m)"
  using assms
  by (auto simp: parse_entry_def outcome_simps split: if_splits option.splits dest: mount_entry_count)

lemma mount_loop_count: "mount_loop archive offset m = Done m' \<Longrightarrow> mnt_count m' \<le> mnt_count m + (length archive - offset)"
proof (induction archive offset m rule: mount_loop.induct)
  case (1 archive offset m)
  from 1(2) obtain step where step: "parse_entry archive offset m = Done step"
    and rest: "(case step of Break m1 \<Rightarrow> Done m1 | Next o1 m1 \<Rightarrow> mount_loop archive o1 m1) = Done m'"
    by (subst (asm) mount_loop.simps) (auto simp: obind_Done_iff)
  show ?case
  proof (cases step)
    case (Break m1)
    with rest parse_entry_count [OF step] show ?thesis by simp
  next
    case (Next o1 m1)
    then have "mnt_count m' \<le> mnt_count m1 + (length archive - o1)" using 1(1) step rest by simp
    moreover have "mnt_count m1 \<le> Suc (mnt_count m)" using parse_entry_count [OF step] Next by simp
    moreover have "offset + 512 \<le> length archive" "offset < o1" using parse_entry_Next [OF step [unfolded Next]] by simp_all
    ultimately show ?thesis by linarith
  qed
qed

lemma all_read_only_vfs_ok: "list_all vf_read_only fs \<Longrightarrow> vfs_ok fs"
  by (induction fs) (auto simp: list_all_iff)

section \<open>Well-formed archives\<close>

text \<open>
  A USTAR entry as archivers write it (\<^verbatim>\<open>build_vfs.py\<close> uses Python's \<^verbatim>\<open>tarfile\<close>): a name
  field padded with zeros, eleven octal size digits and a zero, a type flag, and the contents
  padded to a whole number of blocks. The fields the loader does not look at are arbitrary.
\<close>

fun octal_digits :: "nat \<Rightarrow> nat \<Rightarrow> string" where
  "octal_digits 0 n = []"
| "octal_digits (Suc k) n = octal_digits k (n div 8) @ [char_of (48 + n mod 8)]"

record tar_entry =
  te_name :: string
  te_mode :: "u8 list"
  te_meta :: "u8 list"
  te_flag :: u8
  te_rest :: "u8 list"
  te_data :: "u8 list"

definition tar_header :: "tar_entry \<Rightarrow> u8 list" where
  "tar_header e =
     as_bytes (te_name e) @ replicate (100 - length (te_name e)) 0 @ te_mode e @
     (as_bytes (octal_digits 11 (length (te_data e))) @ [0]) @ te_meta e @ [te_flag e] @ te_rest e"

definition tar_bytes :: "tar_entry \<Rightarrow> u8 list" where
  "tar_bytes e = tar_header e @ te_data e @
     replicate ((length (te_data e) + 511) div 512 * 512 - length (te_data e)) 0"

definition tar_entry_ok :: "tar_entry \<Rightarrow> bool" where
  "tar_entry_ok e \<longleftrightarrow> te_name e \<noteq> [] \<and> length (te_name e) \<le> 100 \<and> valid_utf8 (as_bytes (te_name e)) \<and>
     0 \<notin> set (as_bytes (te_name e)) \<and> length (te_mode e) = 24 \<and> length (te_meta e) = 20 \<and>
     length (te_rest e) = 355 \<and> length (te_data e) < 8 ^ 11"

definition is_regular :: "tar_entry \<Rightarrow> bool" where
  "is_regular e \<longleftrightarrow> te_flag e = 0x30 \<or> te_flag e = 0"

definition mounted_file :: "tar_entry \<Rightarrow> virtual_file" where
  "mounted_file e = \<lparr>vf_name = te_name e, vf_data = te_data e, vf_owner_pid = 0, vf_read_only = True\<rparr>"

lemma length_octal_digits [simp]: "length (octal_digits k n) = k"
  by (induction k arbitrary: n) auto

lemma octal_digit_char: "d < 8 \<Longrightarrow> octal_digit (char_of (48 + d)) = Some d"
  by (simp add: octal_digit_def Let_def)

lemma octal_value_append:
  "octal_value acc (s @ t) = Option.bind (octal_value acc s) (\<lambda>v. octal_value v t)"
  by (induction s arbitrary: acc) (auto split: option.splits)

lemma octal_value_digits:
  assumes "n < 8 ^ k" and "8 ^ k \<le> usize_bound"
  shows "octal_value 0 (octal_digits k n) = Some n"
  using assms
proof (induction k arbitrary: n)
  case 0
  then show ?case by simp
next
  case (Suc k)
  have "n div 8 < 8 ^ k" using Suc.prems(1) by (simp add: less_mult_imp_div_less mult.commute)
  moreover have "(8 :: nat) ^ k \<le> usize_bound" using Suc.prems(2) by simp
  ultimately have "octal_value 0 (octal_digits k (n div 8)) = Some (n div 8)" by (rule Suc.IH)
  moreover have "n < usize_bound" using Suc.prems by linarith
  ultimately show ?case by (simp add: octal_value_append octal_digit_char)
qed

lemma octal_digits_chars:
  assumes "c \<in> set (octal_digits k n)"
  shows "(48 :: nat) \<le> of_char c \<and> of_char c < (56 :: nat)"
  using assms by (induction k arbitrary: n) auto

lemma from_str_radix_8_digits:
  assumes "n < 8 ^ k" and "0 < k" and "8 ^ k \<le> usize_bound"
  shows "from_str_radix_8 (octal_digits k n) = Some n"
proof -
  obtain c cs where cs: "octal_digits k n = c # cs"
    using assms(2) length_octal_digits [of k n] by (cases "octal_digits k n") auto
  then have "(48 :: nat) \<le> of_char c" using octal_digits_chars [of c k n] by simp
  moreover have "of_char CHR ''+'' = (43 :: nat)" "of_char CHR ''-'' = (45 :: nat)" by simp_all
  ultimately have "c \<noteq> CHR ''+''" "c \<noteq> CHR ''-''" by auto
  then show ?thesis
    using octal_value_digits [OF assms(1,3)] cs by (simp add: from_str_radix_8_def)
qed

lemma octal_digits_bytes:
  assumes "b \<in> set (as_bytes (octal_digits k n))"
  shows "b < 0x80 \<and> b \<noteq> 0 \<and> b \<noteq> 0x20"
proof -
  obtain c where c: "c \<in> set (octal_digits k n)" and b: "b = of_char c"
    using assms by (auto simp: as_bytes_def)
  have "b = of_nat (of_char c)" unfolding b by (simp only: of_nat_of_char)
  moreover have "(48 :: nat) \<le> of_char c" "of_char c < (56 :: nat)"
    using octal_digits_chars [OF c] by simp_all
  ultimately have "48 \<le> unat b" "unat b < 56" by (simp_all add: unat_of_nat)
  then show ?thesis by (auto simp: word_less_nat_alt)
qed

lemma size_field_value_digits:
  assumes "n < 8 ^ 11"
  shows "size_field_value (as_bytes (octal_digits 11 n) @ [0]) = n"
proof -
  have bytes: "b < 0x80 \<and> b \<noteq> 0 \<and> b \<noteq> 0x20" if "b \<in> set (as_bytes (octal_digits 11 n))" for b
    using octal_digits_bytes that by blast
  then have "takeWhile (\<lambda>c. c \<noteq> 0 \<and> c \<noteq> 0x20) (as_bytes (octal_digits 11 n) @ [0])
      = as_bytes (octal_digits 11 n)"
    by (subst takeWhile_append2) auto
  moreover have "from_utf8 (as_bytes (octal_digits 11 n)) = Some (octal_digits 11 n)"
    using bytes valid_utf8_ascii by (auto simp: from_utf8_def)
  moreover have "from_str_radix_8 (octal_digits 11 n) = Some n"
    using assms by (intro from_str_radix_8_digits) (simp_all add: usize_bound_def)
  ultimately show ?thesis by (simp add: size_field_value_def)
qed

lemma tar_header_facts:
  assumes "tar_entry_ok e"
  shows "length (tar_header e) = 512" and "tar_header e ! 0 \<noteq> 0" and "tar_header e ! 156 = te_flag e"
    and "takeWhile (\<lambda>c. c \<noteq> 0) (take 100 (tar_header e)) = as_bytes (te_name e)"
    and "take 12 (drop 124 (tar_header e)) = as_bytes (octal_digits 11 (length (te_data e))) @ [0]"
proof -
  have ok: "te_name e \<noteq> []" "length (te_name e) \<le> 100" "0 \<notin> set (as_bytes (te_name e))"
    "length (te_mode e) = 24" "length (te_meta e) = 20" "length (te_rest e) = 355"
    using assms by (simp_all add: tar_entry_ok_def)
  let ?n = "as_bytes (te_name e)" and ?z = "replicate (100 - length (te_name e)) (0 :: u8)"
  let ?s = "as_bytes (octal_digits 11 (length (te_data e))) @ [0]"
  show "length (tar_header e) = 512" using ok by (simp add: tar_header_def)
  have "?n ! 0 \<in> set ?n" using ok(1) by (intro nth_mem) simp
  then have "?n ! 0 \<noteq> 0" using ok(3) by metis
  then show "tar_header e ! 0 \<noteq> 0" using ok(1) by (simp add: tar_header_def nth_append)
  have split: "tar_header e = (?n @ ?z @ te_mode e @ ?s @ te_meta e) @ te_flag e # te_rest e"
    by (simp add: tar_header_def)
  have "length (?n @ ?z @ te_mode e @ ?s @ te_meta e) = 156" using ok by simp
  then show "tar_header e ! 156 = te_flag e" unfolding split by (metis nth_append_length)
  have "take 100 (tar_header e) = ?n @ ?z" using ok by (simp add: tar_header_def)
  moreover have "takeWhile (\<lambda>c. c \<noteq> 0) (?n @ ?z) = ?n"
    using ok(3) by (subst takeWhile_append2) (auto simp: takeWhile_replicate)
  ultimately show "takeWhile (\<lambda>c. c \<noteq> 0) (take 100 (tar_header e)) = ?n" by simp
  have "drop 124 (tar_header e) = ?s @ te_meta e @ te_flag e # te_rest e"
    using ok by (simp add: tar_header_def)
  then show "take 12 (drop 124 (tar_header e)) = ?s" by simp
qed

lemma length_tar_bytes:
  "tar_entry_ok e \<Longrightarrow> length (tar_bytes e) = 512 + (length (te_data e) + 511) div 512 * 512"
  using tar_header_facts(1) [of e] by (simp add: tar_bytes_def)

lemma parse_entry_encoded:
  assumes "tar_entry_ok e" and "archive = pre @ tar_bytes e @ post" and "length archive \<le> isize_max"
    and "mnt_count m \<le> length pre"
  shows "\<exists>m'. parse_entry archive (length pre) m = Done (Next (length pre + length (tar_bytes e)) m') \<and>
    mnt_vfs m' = mnt_vfs m @ (if is_regular e then [mounted_file e] else []) \<and>
    mnt_count m' = mnt_count m + (if is_regular e then 1 else 0) \<and>
    vga (mnt_console m') = vga (mnt_console m)"
proof -
  let ?h = "tar_header e" and ?n = "length (te_data e)" and ?o = "length pre"
  note facts = tar_header_facts [OF assms(1)]
  define a where "a = (?n + 511) div 512 * 512"
  have al_ge: "?n \<le> a"
    unfolding a_def using div_mult_mod_eq [of "?n + 511" 512] mod_less_divisor [of 512 "?n + 511"]
    by linarith
  have len: "length (tar_bytes e) = 512 + a" unfolding a_def by (rule length_tar_bytes [OF assms(1)])
  have fit: "?o + 512 + a \<le> length archive" using assms(2) len by simp
  then have "?o + 512 + a \<le> isize_max" using assms(3) by linarith
  then have "?o + 512 + a < 2 ^ 63" by (simp add: isize_max_def)
  then have small: "?o + 512 < usize_bound" "?o + 512 + ?n < usize_bound"
    "?o + 512 + a < usize_bound" "mnt_count m + 1 < usize_bound" "?n + 511 < 2 ^ 64"
    using al_ge assms(4) by (simp_all add: usize_bound_def)
  have align: "block_align ?n = Done a" unfolding a_def using small(5) by (rule block_align_Done)
  have header: "take 512 (drop ?o archive) = ?h" and contents: "take ?n (drop (?o + 512) archive) = te_data e"
    using assms(2) facts(1) by (simp_all add: tar_bytes_def)
  have size: "parse_size ?h = Done ?n"
    using parse_size_Done [OF facts(1)] facts(5) size_field_value_digits assms(1)
    by (simp add: tar_entry_ok_def)
  have name: "from_utf8 (as_bytes (te_name e)) = Some (te_name e)"
    using assms(1) by (simp add: tar_entry_ok_def from_utf8_def)
  have head: "parse_entry archive ?o m = mount_entry archive ?h (te_name e) ?o m"
    unfolding parse_entry_def
    using fit small(1) header facts(1,2) parse_name_Done [OF facts(1)] facts(4) name by simp
  have skip: "obind (block_align ?n) (\<lambda>a. obind (usize_add (?o + 512) a) (\<lambda>o'. Done (Next o' m')))
      = Done (Next (?o + length (tar_bytes e)) m')" for m'
    unfolding align len using small(3) by (simp add: add.assoc)
  have flag: "index ?h 156 = Done (te_flag e)" using facts(1,3) by simp
  have off: "usize_add ?o 512 = Done (?o + 512)" using small(1) by simp
  note unfolded = mount_entry_def size flag off obind.simps Let_def
  show ?thesis
  proof (cases "is_regular e")
    case True
    obtain m' where m': "mount_file (te_name e) ?n (te_data e) m = Done m'" "mnt_count m' = mnt_count m + 1"
      "mnt_vfs m' = register_file (te_name e) (te_data e) (mnt_vfs m)"
      "vga (mnt_console m') = vga (mnt_console m)"
      using mount_file_Done [OF small(4) refl] by blast
    have "slice_range archive (?o + 512) (?o + 512 + ?n) = Done (te_data e)"
      using fit al_ge contents by (simp add: slice_range_def)
    then have "mount_entry archive ?h (te_name e) ?o m = Done (Next (?o + length (tar_bytes e)) m')"
      unfolding unfolded using True small(2) fit al_ge m'(1) by (simp add: is_regular_def skip)
    with True m' head show ?thesis by (simp add: register_file_def mounted_file_def)
  next
    case False
    then have "mount_entry archive ?h (te_name e) ?o m = Done (Next (?o + length (tar_bytes e)) m)"
      unfolding unfolded by (simp add: is_regular_def skip)
    with False head show ?thesis by simp
  qed
qed

lemma mount_loop_encoded:
  assumes "list_all tar_entry_ok es" and "archive = pre @ concat (map tar_bytes es) @ 0 # post"
    and "length post \<ge> 511" and "length archive \<le> isize_max" and "mnt_count m \<le> length pre"
  shows "\<exists>m'. mount_loop archive (length pre) m = Done m' \<and>
    mnt_vfs m' = mnt_vfs m @ map mounted_file (filter is_regular es) \<and>
    mnt_count m' = mnt_count m + length (filter is_regular es)"
  using assms(1,2,5)
proof (induction es arbitrary: pre m)
  case Nil
  have "length pre + 512 < usize_bound" "length pre + 512 \<le> length archive"
    using assms(3,4) Nil.prems(2) by (simp_all add: isize_max_def usize_bound_def)
  moreover have "take 512 (drop (length pre) archive) ! 0 = 0" using Nil.prems(2) by simp
  ultimately have "parse_entry archive (length pre) m = Done (Break m)"
    unfolding parse_entry_def by simp
  then show ?case by (subst mount_loop.simps) simp
next
  case (Cons e es)
  have e: "tar_entry_ok e" and split: "archive = pre @ tar_bytes e @ (concat (map tar_bytes es) @ 0 # post)"
    using Cons.prems(1,2) by simp_all
  obtain m1 where m1: "parse_entry archive (length pre) m = Done (Next (length pre + length (tar_bytes e)) m1)"
    "mnt_vfs m1 = mnt_vfs m @ (if is_regular e then [mounted_file e] else [])"
    "mnt_count m1 = mnt_count m + (if is_regular e then 1 else 0)"
    using parse_entry_encoded [OF e split assms(4) Cons.prems(3)] by blast
  have "1 \<le> length (tar_bytes e)" using length_tar_bytes [OF e] by simp
  then have "mnt_count m1 \<le> length (pre @ tar_bytes e)" using m1(3) Cons.prems(3) by simp
  with Cons.IH [of "pre @ tar_bytes e" m1] Cons.prems(1) split
  obtain m' where "mount_loop archive (length pre + length (tar_bytes e)) m1 = Done m'"
    "mnt_vfs m' = mnt_vfs m1 @ map mounted_file (filter is_regular es)"
    "mnt_count m' = mnt_count m1 + length (filter is_regular es)"
    by auto
  with m1 show ?case by (subst mount_loop.simps) simp
qed

lemma initramfs_init_mounts:
  assumes "length archive \<le> isize_max" and "archive \<noteq> []"
  shows "\<exists>new con'. initramfs_init archive fs con = Done (Inr (length new), fs @ new, con') \<and> vga con' = vga con \<and>
    list_all (from_archive archive) new \<and> length new \<le> length archive"
proof -
  let ?m = "\<lparr>mnt_count = 0, mnt_vfs = fs, mnt_console = con\<rparr>"
  have "loop_bound archive 0 ?m" by (simp add: loop_bound_def)
  with mount_loop_total [OF assms(1)] obtain m' where m': "mount_loop archive 0 ?m = Done m'" by blast
  from mount_loop_mounts [OF this] obtain new where new: "mnt_vfs m' = fs @ new"
    "mnt_count m' = length new" "list_all (from_archive archive) new" "vga (mnt_console m') = vga con"
    by (auto simp: mounts_def)
  then show ?thesis using assms(2) m' mount_loop_count [OF m'] by (simp add: initramfs_init_def)
qed

lemma from_archive_read_only: "list_all (from_archive archive) new \<Longrightarrow> list_all vf_read_only new"
  by (auto simp: list_all_iff from_archive_def)

lemma initramfs_init_encoded:
  assumes "list_all tar_entry_ok es" and "1024 \<le> n"
    and "length (concat (map tar_bytes es) @ replicate n 0) \<le> isize_max"
  shows "\<exists>con'. initramfs_init (concat (map tar_bytes es) @ replicate n 0) fs con =
    Done (Inr (length (filter is_regular es)), fs @ map mounted_file (filter is_regular es), con')"
proof -
  let ?a = "concat (map tar_bytes es) @ replicate n 0"
  let ?m = "\<lparr>mnt_count = 0, mnt_vfs = fs, mnt_console = con\<rparr>"
  have split: "?a = [] @ concat (map tar_bytes es) @ 0 # replicate (n - 1) 0"
    using assms(2) by (cases n) auto
  have "511 \<le> length (replicate (n - 1) (0 :: u8))" using assms(2) by simp
  from mount_loop_encoded [OF assms(1) split this assms(3), of ?m] obtain m' where
    "mount_loop ?a (length ([] :: u8 list)) ?m = Done m'"
    "mnt_vfs m' = mnt_vfs ?m @ map mounted_file (filter is_regular es)"
    "mnt_count m' = mnt_count ?m + length (filter is_regular es)"
    by auto
  moreover have "?a \<noteq> []" using assms(2) by auto
  ultimately show ?thesis unfolding initramfs_init_def by simp
qed

section \<open>Properties\<close>

text \<open>C15: The loader is safe on any input. For every archive Rust can hold in a slice, well formed
  or not, \<^verbatim>\<open>init\<close> returns: no slice or index is out of range and no offset computation overflows.
  It reports the number of files mounted, only appends to the file system, and everything it
  appends is read-only, owned by the system, and holds bytes of the archive; so a file system of
  read-only files stays well formed.\<close>

theorem initramfs_init_safe:
  assumes "length archive \<le> isize_max"
  shows "\<exists>r fs' con'. initramfs_init archive fs con = Done (r, fs', con') \<and> vga con' = vga con \<and>
    (case r of Inl e \<Rightarrow> archive = [] \<and> e = ''Archive is empty'' \<and> fs' = fs
     | Inr n \<Rightarrow> archive \<noteq> [] \<and> (\<exists>new. fs' = fs @ new \<and> n = length new \<and> list_all (from_archive archive) new))
    \<and> (list_all vf_read_only fs \<longrightarrow> vfs_ok fs')"
proof (cases "archive = []")
  case True
  then show ?thesis by (auto simp: initramfs_init_def dest: all_read_only_vfs_ok)
next
  case False
  then obtain new con' where new: "initramfs_init archive fs con = Done (Inr (length new), fs @ new, con')"
    "vga con' = vga con" "list_all (from_archive archive) new"
    using initramfs_init_mounts [OF assms] by blast
  then show ?thesis using False from_archive_read_only all_read_only_vfs_ok [of "fs @ new"] by simp
qed

theorem initramfs_init_safe_witness:
  "length (replicate 600 (0xFF :: u8)) \<le> isize_max \<and>
   (\<exists>r fs' con'. initramfs_init (replicate 600 0xFF) [] \<lparr>vga = initial_writer [], serial = []\<rparr>
      = Done (r, fs', con') \<and> vfs_ok fs')"
proof -
  have len: "length (replicate 600 (0xFF :: u8)) \<le> isize_max" by (simp add: isize_max_def)
  from initramfs_init_safe [OF len, of "[]" "\<lparr>vga = initial_writer [], serial = []\<rparr>"] len
  show ?thesis by auto
qed

text \<open>C8: The loader mounts what the archiver packed. An archive made of any list of well-formed
  USTAR entries followed by the zero block that ends it yields exactly the regular files among
  them, in order, with their names and contents byte for byte, and the right count; entries of
  other types are skipped together with their data.\<close>

theorem initramfs_roundtrip:
  assumes "list_all tar_entry_ok es" and "1024 \<le> n"
    and "length (concat (map tar_bytes es) @ replicate n 0) \<le> isize_max"
  shows "\<exists>con'. initramfs_init (concat (map tar_bytes es) @ replicate n 0) fs con =
    Done (Inr (length (filter is_regular es)), fs @ map mounted_file (filter is_regular es), con')"
  using assms by (rule initramfs_init_encoded)

definition sample_entry :: tar_entry where
  "sample_entry = \<lparr>te_name = ''a'', te_mode = replicate 24 0x30, te_meta = replicate 20 0x30,
     te_flag = 0x30, te_rest = replicate 355 0, te_data = [1, 2, 3]\<rparr>"

theorem initramfs_roundtrip_witness:
  "list_all tar_entry_ok [sample_entry] \<and> (1024 :: nat) \<le> 1024 \<and>
   (\<exists>con'. initramfs_init (concat (map tar_bytes [sample_entry]) @ replicate 1024 0) []
      \<lparr>vga = initial_writer [], serial = []\<rparr> = Done (Inr 1, [mounted_file sample_entry], con'))"
proof -
  have ok: "list_all tar_entry_ok [sample_entry]"
    by (simp add: sample_entry_def tar_entry_ok_def as_bytes_def)
  then have "length (tar_bytes sample_entry) = 1024"
    using length_tar_bytes [of sample_entry] by (simp add: sample_entry_def)
  then have len: "length (concat (map tar_bytes [sample_entry]) @ replicate 1024 0) \<le> isize_max"
    by (simp add: isize_max_def)
  have "filter is_regular [sample_entry] = [sample_entry]"
    by (simp add: sample_entry_def is_regular_def)
  with initramfs_roundtrip [OF ok _ len, of "[]"] ok show ?thesis by simp
qed

text \<open>C40: A file with a name that is not UTF-8 is not skipped as the message says: only its header
  block is. Parsing goes on right behind the header, so the blocks of the skipped file's
  contents are read as headers, and a file hidden in them is mounted.\<close>

theorem invalid_name_skips_header_only:
  assumes "offset + 512 \<le> length archive" and "length archive \<le> isize_max"
    and "archive ! offset \<noteq> 0"
    and "\<not> valid_utf8 (takeWhile (\<lambda>c. c \<noteq> 0) (take 100 (drop offset archive)))"
  shows "mount_loop archive offset m = mount_loop archive (offset + 512) (m\<lparr>mnt_console :=
    serial_println ''[INITRAMFS] Skipped file with invalid UTF-8 name'' (mnt_console m)\<rparr>)"
proof -
  let ?h = "take 512 (drop offset archive)"
  have h: "length ?h = 512" using assms(1) by simp
  have "offset + 512 < usize_bound" using assms(1,2) by (simp add: isize_max_def usize_bound_def)
  moreover have "?h ! 0 \<noteq> 0" using assms(1,3) by simp
  moreover have "from_utf8 (takeWhile (\<lambda>c. c \<noteq> 0) (take 100 ?h)) = None"
    using assms(4) by (simp add: from_utf8_def)
  ultimately have "parse_entry archive offset m = Done (Next (offset + 512) (m\<lparr>mnt_console :=
      serial_println ''[INITRAMFS] Skipped file with invalid UTF-8 name'' (mnt_console m)\<rparr>))"
    unfolding parse_entry_def using assms(1) parse_name_Done [OF h] by simp
  then show ?thesis by (subst mount_loop.simps) simp
qed

lemma not_valid_utf8_FF: "valid_utf8 (0xFF # bs) = False"
  by (simp split: list.split)

theorem invalid_name_skips_header_only_witness:
  "\<exists>m. mount_loop (replicate 1024 0xFF) 0 m = mount_loop (replicate 1024 0xFF) (0 + 512) (m\<lparr>mnt_console :=
    serial_println ''[INITRAMFS] Skipped file with invalid UTF-8 name'' (mnt_console m)\<rparr>)
   \<and> mnt_vfs m = []"
proof -
  let ?m = "\<lparr>mnt_count = 0, mnt_vfs = [], mnt_console = \<lparr>vga = initial_writer [], serial = []\<rparr>\<rparr>"
  let ?name = "takeWhile (\<lambda>c. c \<noteq> 0) (take 100 (drop 0 (replicate 1024 (0xFF :: u8))))"
  have "?name = replicate 100 0xFF" by (simp add: takeWhile_eq_all_conv [THEN iffD2])
  also have "\<dots> = 0xFF # replicate 99 0xFF" using replicate_Suc [of 99 "0xFF :: u8"] by simp
  finally have "\<not> valid_utf8 ?name" by (simp only: not_valid_utf8_FF not_False_eq_True)
  then have "mount_loop (replicate 1024 0xFF) 0 ?m = mount_loop (replicate 1024 0xFF) (0 + 512) (?m\<lparr>mnt_console :=
      serial_println ''[INITRAMFS] Skipped file with invalid UTF-8 name'' (mnt_console ?m)\<rparr>)"
    by (intro invalid_name_skips_header_only) (simp_all add: isize_max_def)
  then show ?thesis by (intro exI [of _ ?m]) simp
qed

end
