(* ===== verification/Kernel_Main.thy ===== *)
theory Kernel_Main
  imports Wasm_Runtime Pci Initramfs Gdt
begin

text \<open>
  The boot sequence (\<^verbatim>\<open>src/main.rs\<close>): heap, subsystems, PCI scan and network card, the boot archive, the
  core agent, and the loop that executes every \<^verbatim>\<open>.wasm\<close> file of the file system. The final \<^verbatim>\<open>hlt\<close> loop
  is the returned state. The processor's tables, the page-table operations, the archive linked into the kernel and the addresses
  of the card's buffers are parameters.
\<close>

section \<open>Parameters\<close>

record ('h, 'i, 's, 'k, 'm, 'w, 'pt, 'g, 'd) machine =
  host :: "('h, 'i, 's, 'k, 'm) host_env"
  interp :: "('w, 'm) wasmi"
  guest_fuel :: nat
  cpu :: "('g, 'd, 'h) x86"
  map_to :: "nat \<Rightarrow> nat \<Rightarrow> frame_allocator \<Rightarrow> 'pt \<Rightarrow> ((map_error + unit) \<times> frame_allocator \<times> 'pt) outcome"
  offset_table :: "u64 \<Rightarrow> u64 \<Rightarrow> 'pt"
  cr3 :: u64
  boot_map :: "memory_region list"
  boot_offset :: u64
  dma_alloc :: "pci_device \<Rightarrow> u64 \<times> dma_buffer list"
  archive :: "u8 list"

section \<open>Devices\<close>

definition k_log :: "string \<Rightarrow> ('i, 's, 'h) kernel \<Rightarrow> ('i, 's, 'h) kernel outcome" where
  "k_log line k = map_outcome (\<lambda>con. k\<lparr>k_console := con\<rparr>) (log_line line (k_console k))"

definition k_println :: "string \<Rightarrow> ('i, 's, 'h) kernel \<Rightarrow> ('i, 's, 'h) kernel outcome" where
  "k_println line k = map_outcome (\<lambda>con. k\<lparr>k_console := con\<rparr>) (println line (k_console k))"

definition device_line :: "pci_device \<Rightarrow> string" where
  "device_line dev = ''  [PCI] Found Device '' @ fmt_04X (vendor_id dev) @ '':'' @ fmt_04X (device_id dev) @ '' at '' @
     dec (pci_bus dev) @ '':'' @ dec (pci_slot dev) @ '':'' @ dec (pci_function dev) @
     '' (BAR0: '' @ fmt_hashX (unat (bar0 dev)) @ '')''"

definition is_rtl8139 :: "pci_device \<Rightarrow> bool" where
  "is_rtl8139 dev \<longleftrightarrow> vendor_id dev = 0x10EC \<and> device_id dev = 0x8139"

definition start_network ::
    "('h, 'i, 's, 'k, 'm, 'w, 'pt, 'g, 'd) machine \<Rightarrow> pci_device \<Rightarrow> ('i, 's, 'h) kernel \<Rightarrow> ('i, 's, 'h) kernel outcome" where
  "start_network M dev k =
     (let pf = platform_of (host M);
          io = ucast (bar0 dev AND NOT 3);
          (rx, txs) = dma_alloc M dev in
      obind (rtl8139_new (ports pf) rx txs io (boot_offset M) (k_hw k) (k_console k)) (\<lambda>(rtl, hw, con).
      obind (rtl8139_init (ports pf) (patience pf) rtl hw con) (\<lambda>(hw, con).
      obind (net_init pf rtl con) (\<lambda>(net, con).
      Done (k\<lparr>k_net := Some net, k_hw := hw, k_console := con\<rparr>)))))"

definition probe_device ::
    "('h, 'i, 's, 'k, 'm, 'w, 'pt, 'g, 'd) machine \<Rightarrow> pci_device \<Rightarrow> ('i, 's, 'h) kernel \<Rightarrow> ('i, 's, 'h) kernel outcome" where
  "probe_device M dev k =
     obind (k_log (device_line dev) k) (\<lambda>k.
     if is_rtl8139 dev then
       obind (k_log ''  [NET] Initializing RTL8139 Driver...'' k) (\<lambda>k. start_network M dev k)
     else Done k)"

section \<open>The agents\<close>

definition rule_line :: string where
  "rule_line = replicate 60 CHR ''=''"

text \<open>The title with its dash (U+2014) in UTF-8.\<close>

definition title_line :: string where
  "title_line = ''  Rust Microkernel '' @ [CHR 0xE2, CHR 0x80, CHR 0x94] @ '' OpenClaw Wasm Sandbox POC''"

definition execute_file ::
    "('h, 'i, 's, 'k, 'm, 'w, 'pt, 'g, 'd) machine \<Rightarrow> u64 \<Rightarrow> string \<Rightarrow> u8 list \<Rightarrow> ('i, 's, 'h) kernel \<Rightarrow> ('i, 's, 'h) kernel outcome" where
  "execute_file M pid filename wasm_bytes k =
     obind (k_log (''  Executing '' @ filename @ ''...'') k) (\<lambda>k.
     obind (execute_module (host M) (interp M) (guest_fuel M) wasm_bytes pid k) (\<lambda>(r, k).
     case r of
       Inr _ \<Rightarrow> k_log (''  [SUCCESS] '' @ filename @ '' executed successfully.'') k
     | Inl e \<Rightarrow> k_log (''  [ERROR] '' @ filename @ '' execution failed: '' @ e) k))"

text \<open>\<^verbatim>\<open>executed_count += 1\<close> on an \<^verbatim>\<open>i32\<close>\<close>

definition i32_inc :: "nat \<Rightarrow> nat outcome" where
  "i32_inc n = (if n + 1 < 2 ^ 31 then Done (n + 1) else Panic ArithOverflow)"

text \<open>The loop, with the way a file is looked up as an argument; the code looks it up in the file system
  as it is at that moment.\<close>

fun execute_files ::
    "('h, 'i, 's, 'k, 'm, 'w, 'pt, 'g, 'd) machine \<Rightarrow> (('i, 's, 'h) kernel \<Rightarrow> string \<Rightarrow> u8 list option) \<Rightarrow> u64 \<Rightarrow> string list \<Rightarrow> nat
      \<Rightarrow> ('i, 's, 'h) kernel \<Rightarrow> (nat \<times> ('i, 's, 'h) kernel) outcome" where
  "execute_files M look pid [] n k = Done (n, k)"
| "execute_files M look pid (filename # files) n k =
     (if ends_with filename ''.wasm'' then
        obind (k_log (''[EXEC] Found Wasm Agent: '' @ filename) k) (\<lambda>k.
        case look k filename of
          None \<Rightarrow> execute_files M look pid files n k
        | Some wasm_bytes \<Rightarrow>
            obind (execute_file M pid filename wasm_bytes k) (\<lambda>k.
            obind (i32_inc n) (\<lambda>n. execute_files M look pid files n k)))
      else execute_files M look pid files n k)"

definition current_file :: "('i, 's, 'h) kernel \<Rightarrow> string \<Rightarrow> u8 list option" where
  "current_file k filename = open_file (k_vfs k) filename"

definition k_logs :: "string list \<Rightarrow> ('i, 's, 'h) kernel \<Rightarrow> ('i, 's, 'h) kernel outcome" where
  "k_logs lines k = for_each k_log lines k"

definition mount_archive ::
    "('h, 'i, 's, 'k, 'm, 'w, 'pt, 'g, 'd) machine \<Rightarrow> ('i, 's, 'h) kernel \<Rightarrow> ('i, 's, 'h) kernel outcome" where
  "mount_archive M k =
     obind (initramfs_init (archive M) (k_vfs k) (k_console k)) (\<lambda>(r, fs, con).
     let k = k\<lparr>k_vfs := fs, k_console := con\<rparr> in
     case r of
       Inr count \<Rightarrow> k_log (''  Successfully mounted '' @ fmt_dec count @ '' files from Initramfs.'') k
     | Inl e \<Rightarrow> obind (k_log (''[ERROR] Failed to parse Initramfs: '' @ e) k) (\<lambda>_. Panic Explicit))"

definition spawn_core :: "('i, 's, 'h) kernel \<Rightarrow> (u64 \<times> ('i, 's, 'h) kernel) outcome" where
  "spawn_core k =
     obind (create_capability (Spawn 10) (k_caps k)) (\<lambda>(cap_spawn, cs).
     obind (create_capability Network cs) (\<lambda>(cap_net, cs).
     obind (spawn_agent ''openclaw_core'' [cap_spawn, cap_net] (k_registry k)) (\<lambda>(core_agent, reg).
     Done (agent_pid core_agent, k\<lparr>k_caps := cs, k_registry := reg\<rparr>))))"

definition run_wasm_demo ::
    "('h, 'i, 's, 'k, 'm, 'w, 'pt, 'g, 'd) machine \<Rightarrow> ('i, 's, 'h) kernel \<Rightarrow> ('i, 's, 'h) kernel outcome" where
  "run_wasm_demo M k =
     obind (k_logs [[], rule_line, title_line, rule_line, [], ''[SETUP] Initializing Wasm Runtime...'',
                    ''[SETUP] Parsing Initramfs...''] k) (\<lambda>k.
     obind (mount_archive M k) (\<lambda>k.
     obind (k_log ''[SETUP] Spawning OpenClaw Core Agent...'' k) (\<lambda>k.
     obind (spawn_core k) (\<lambda>(pid, k).
     obind (k_log (''  Agent '' @ [CHR 0x27] @ ''openclaw_core'' @ [CHR 0x27] @ '' created with PID: '' @ dec pid) k) (\<lambda>k.
     obind (execute_files M current_file pid (list_files (k_vfs k)) 0 k) (\<lambda>(executed_count, k).
     obind (if executed_count = 0 then k_log ''[WARN] No .wasm files found in the VFS.'' k else Done k) (\<lambda>k.
     k_logs [[], rule_line, ''  Microvisor Halted.'', rule_line, []] k)))))))"

section \<open>Boot\<close>

definition capability_init :: "('i, 's, 'h) kernel \<Rightarrow> ('i, 's, 'h) kernel outcome" where
  "capability_init k = k_println ''Capability system initialized'' k"

definition k_ipc_init :: "('i, 's, 'h) kernel \<Rightarrow> ('i, 's, 'h) kernel outcome" where
  "k_ipc_init k = k_println ''IPC system initialized (Kernel Supervisor at PID 0)'' (k\<lparr>k_ipc := ipc_init (k_ipc k)\<rparr>)"

text \<open>The statics before \<^verbatim>\<open>kernel_main\<close> runs.\<close>

definition boot_kernel :: "console \<Rightarrow> 'h \<Rightarrow> ('i, 's, 'h) kernel" where
  "boot_kernel con hw =
     \<lparr>k_caps = initial_caps, k_registry = new_registry, k_ipc = Map.empty, k_vfs = [], k_net = None,
      k_console = con, k_uptime = 0, k_hw = hw\<rparr>"

definition kernel_main ::
    "('h, 'i, 's, 'k, 'm, 'w, 'pt, 'g, 'd) machine \<Rightarrow> ('i, 's, 'h) kernel \<Rightarrow> ('i, 's, 'h) kernel outcome" where
  "kernel_main M k =
     obind (init_cpu (cpu M) (k_hw k)) (\<lambda>hw.
     let k = k\<lparr>k_hw := hw\<rparr> in
     obind (memory_init (offset_table M) (cr3 M) (boot_offset M)) (\<lambda>mapper.
     obind (init_heap (map_to M) (frame_allocator_init (boot_map M)) mapper) (\<lambda>(r, _, _).
     case r of
       Inl _ \<Rightarrow> Panic UnwrapFailed
     | Inr _ \<Rightarrow>
         obind (capability_init k) (\<lambda>k.
         obind (k_ipc_init k) (\<lambda>k.
         obind (k_log ''[SETUP] Scanning PCI buses...'' k) (\<lambda>k.
         let (devices, hw) = scan_buses (ports (platform_of (host M))) (k_hw k) in
         obind (for_each (probe_device M) devices (k\<lparr>k_hw := hw\<rparr>)) (\<lambda>k.
         run_wasm_demo M k)))))))"

section \<open>Panics\<close>

text \<open>What a panic leaves behind before the processor halts: the message goes to the serial port first, so it
  is out even if the panic came while the screen was being written.\<close>

definition panic_handler :: "string \<Rightarrow> ('i, 's, 'h) kernel \<Rightarrow> ('i, 's, 'h) kernel outcome" where
  "panic_handler info k = k_println (''KERNEL PANIC: '' @ info) (k_serial (''KERNEL PANIC: '' @ info) k)"

definition alloc_error_handler :: "string \<Rightarrow> string" where
  "alloc_error_handler layout = ''allocation error: '' @ layout"

lemma panic_handler_reports:
  assumes "console_ok (k_console k)"
  shows "\<exists>k'. panic_handler info k = Done k' \<and>
    serial (k_console k') = serial (k_console k) @ ''KERNEL PANIC: '' @ info @ newline"
proof -
  let ?line = "''KERNEL PANIC: '' @ info"
  have "console_ok (serial_println ?line (k_console k))" using assms by simp
  then obtain con where "println ?line (serial_println ?line (k_console k)) = Done con"
    "serial con = serial (serial_println ?line (k_console k))"
    using println_total by blast
  then show ?thesis
    unfolding panic_handler_def k_println_def k_serial_def by (simp add: serial_println_def serial_print_def)
qed

section \<open>Log lines\<close>

lemma k_log_Done:
  "k_log line k = Done k' \<Longrightarrow>
     k_caps k' = k_caps k \<and> k_registry k' = k_registry k \<and> k_ipc k' = k_ipc k \<and> k_vfs k' = k_vfs k \<and>
     k_net k' = k_net k \<and> k_hw k' = k_hw k \<and> k_uptime k' = k_uptime k"
  by (auto simp: k_log_def map_outcome_Done_iff)

lemma k_log_ready:
  assumes "kernel_ready base J k"
  shows "\<exists>k'. k_log line k = Done k' \<and> kernel_ready base J k'"
proof -
  have "console_ok (k_console k)" using assms by (simp add: kernel_ready_def kernel_ok_def)
  then obtain con where "log_line line (k_console k) = Done con" "console_ok con" using log_line_total by blast
  then show ?thesis using assms by (simp add: k_log_def kernel_ready_def kernel_ok_def)
qed

lemma k_logs_ready:
  assumes "kernel_ready base J k"
  shows "\<exists>k'. k_logs lines k = Done k' \<and> kernel_ready base J k' \<and> k_caps k' = k_caps k \<and>
    k_registry k' = k_registry k \<and> k_vfs k' = k_vfs k"
  using assms
proof (induction lines arbitrary: k)
  case (Cons line lines)
  obtain k1 where k1: "k_log line k = Done k1" "kernel_ready base J k1" using k_log_ready [OF Cons.prems] by blast
  obtain k2 where "k_logs lines k1 = Done k2" "kernel_ready base J k2" "k_caps k2 = k_caps k1"
    "k_registry k2 = k_registry k1" "k_vfs k2 = k_vfs k1"
    using Cons.IH [OF k1(2)] by blast
  then show ?case using k1(1) k_log_Done [OF k1(1)] by (simp add: k_logs_def)
qed (simp add: k_logs_def)

section \<open>The modules executed are those of the archive\<close>

lemma execute_file_Done:
  assumes "execute_file M pid name bytes k = Done k'"
  shows "\<exists>k1 r k2 line. k_log (''  Executing '' @ name @ ''...'') k = Done k1 \<and>
    execute_module (host M) (interp M) (guest_fuel M) bytes pid k1 = Done (r, k2) \<and> k_log line k2 = Done k'"
proof -
  obtain k1 r k2 where "k_log (''  Executing '' @ name @ ''...'') k = Done k1"
    "execute_module (host M) (interp M) (guest_fuel M) bytes pid k1 = Done (r, k2)"
    "(case r of Inr _ \<Rightarrow> k_log (''  [SUCCESS] '' @ name @ '' executed successfully.'') k2
      | Inl e \<Rightarrow> k_log (''  [ERROR] '' @ name @ '' execution failed: '' @ e) k2) = Done k'"
    using assms unfolding execute_file_def obind_Done_iff split_paired_Ex split_conv by blast
  then show ?thesis by (cases r) (simp_all only: sum.case, blast+)
qed

lemma execute_file_inv:
  assumes "host_invariant_grant (host M) any_panic pid I" and "\<And>line k k'. k_log line k = Done k' \<Longrightarrow> I k \<Longrightarrow> I k'"
    and "execute_file M pid name bytes k = Done k'" and "I k"
  shows "I k'"
  using execute_file_Done [OF assms(3)] assms(2,4) execute_module_inv [OF assms(1)] by blast

lemma execute_files_inv:
  assumes I: "host_invariant_grant (host M) any_panic pid I" and log: "\<And>line k k'. k_log line k = Done k' \<Longrightarrow> I k \<Longrightarrow> I k'"
  shows "execute_files M look pid files c k = Done (c', k') \<Longrightarrow> I k \<Longrightarrow> I k'"
proof (induction files arbitrary: c k)
  case (Cons name files)
  have run: "I k2" if "k_log line k = Done k1" "execute_file M pid name bytes k1 = Done k2" for line bytes k1 k2
    using execute_file_inv [where I = I, OF I _ that(2)] log log [OF that(1) Cons.prems(2)] by blast
  show ?case
    using Cons.prems by (auto simp: obind_Done_iff split: if_splits option.splits intro: Cons.IH log run)
qed simp

lemma execute_file_holds: "execute_file M pid name bytes k = Done k' \<Longrightarrow> holds_file f n k \<Longrightarrow> holds_file f n k'"
  by (rule execute_file_inv [OF ro.host_invariant_grant_axioms]) (auto simp: holds_file_def dest: k_log_Done)

lemma current_file_holds: "holds_file f n k \<Longrightarrow> current_file k n = Some (vf_data f)"
  by (simp add: current_file_def open_file_file_at holds_file_def)

lemma execute_files_snapshot:
  assumes "\<forall>n \<in> set files. \<exists>f. holds_file f n k0 \<and> holds_file f n k"
  shows "execute_files M current_file pid files c k = execute_files M (\<lambda>_. current_file k0) pid files c k"
  using assms
proof (induction files arbitrary: c k)
  case (Cons name files)
  obtain f where f: "holds_file f name k0" "holds_file f name k" using Cons.prems by auto
  have log: "holds_file g n k1 = holds_file g n k" if "k_log line k = Done k1" for g n k1 line
    using k_log_Done [OF that] by (simp add: holds_file_def)
  have rest: "execute_files M current_file pid files c' k2 = execute_files M (\<lambda>_. current_file k0) pid files c' k2"
    if "k_log line k = Done k1" "execute_file M pid name bytes k1 = Done k2" for line bytes k1 k2 c'
  proof (rule Cons.IH, rule ballI)
    fix n assume "n \<in> set files"
    then obtain g where "holds_file g n k0" "holds_file g n k" using Cons.prems by auto
    then show "\<exists>f. holds_file f n k0 \<and> holds_file f n k2"
      using log [OF that(1)] execute_file_holds [OF that(2)] by blast
  qed
  have "current_file k1 name = current_file k0 name" if "k_log line k = Done k1" for k1 line
    using f log [OF that] current_file_holds by metis
  moreover have "current_file k0 name = Some (vf_data f)" using f(1) by (rule current_file_holds)
  ultimately show ?case
    using Cons.IH [of k c] Cons.prems rest by (auto intro!: obind_cong)
qed simp

section \<open>The boot sequence ends\<close>

lemma mount_archive_ready:
  assumes "kernel_ready base J k" and "k_vfs k = []" and "archive M \<noteq> []" and "length (archive M) \<le> isize_max"
  shows "\<exists>k'. mount_archive M k = Done k' \<and> kernel_ready base J k' \<and> k_caps k' = k_caps k \<and> k_registry k' = k_registry k \<and>
    list_all vf_read_only (k_vfs k') \<and> length (k_vfs k') \<le> length (archive M) \<and>
    (\<exists>con con'. initramfs_init (archive M) [] con = Done (Inr (length (k_vfs k')), k_vfs k', con'))"
proof -
  obtain new con where new: "initramfs_init (archive M) [] (k_console k) = Done (Inr (length new), new, con)"
    "vga con = vga (k_console k)" "list_all (from_archive (archive M)) new" "length new \<le> length (archive M)"
    using initramfs_init_mounts [OF assms(4,3), of "[]" "k_console k"] by auto
  let ?k = "k\<lparr>k_vfs := new, k_console := con\<rparr>"
  have ro: "list_all vf_read_only new" using new(3) by (rule from_archive_read_only)
  then have "kernel_ready base J ?k"
    using assms(1) new(2) all_read_only_vfs_ok by (simp add: kernel_ready_def kernel_ok_def console_ok_def)
  then obtain k' where k': "k_log (''  Successfully mounted '' @ fmt_dec (length new) @ '' files from Initramfs.'') ?k = Done k'"
    "kernel_ready base J k'"
    using k_log_ready by blast
  have "mount_archive M k = Done k'"
    unfolding mount_archive_def assms(2) new(1) obind.simps split_conv Let_def sum.case using k'(1) .
  then show ?thesis using k'(2) k_log_Done [OF k'(1)] ro new(4) new(1) by auto
qed

lemma spawn_core_ready:
  assumes "kernel_ready base J k" and "r + 2 \<le> cap_room (k_caps k)" and "0 < agent_room (k_registry k)"
  shows "\<exists>pid k'. spawn_core k = Done (pid, k') \<and> kernel_ready base J k' \<and> r \<le> cap_room (k_caps k') \<and> k_vfs k' = k_vfs k"
proof -
  have ok: "caps_ok (k_caps k)" "registry_ok (k_registry k)" using assms(1) by (simp_all add: kernel_ready_def kernel_ok_def)
  obtain i cs where c1: "create_capability (Spawn 10) (k_caps k) = Done (i, cs)"
    using capreg.alloc_total [OF ok(1)] assms(2) by fastforce
  note cs = caps_ok_create [OF ok(1) c1] capreg.alloc_room [OF ok(1) c1]
  obtain j cs' where c2: "create_capability Network cs = Done (j, cs')"
    using capreg.alloc_total [OF cs(1)] assms(2) cs(2) by fastforce
  note cs' = caps_ok_create [OF cs(1) c2] capreg.alloc_room [OF cs(1) c2]
  obtain a reg where a: "spawn_agent ''openclaw_core'' [i, j] (k_registry k) = Done (a, reg)"
    using agentreg.alloc_total [OF ok(2) assms(3), of "(''openclaw_core'', [i, j])"] by (auto simp: spawn_entry_def)
  have "kernel_ready base J (k\<lparr>k_caps := cs', k_registry := reg\<rparr>)"
    using assms(1) cs'(1) registry_ok_spawn [OF ok(2) a] by (simp add: kernel_ready_def kernel_ok_def)
  then show ?thesis using c1 c2 a cs(2) cs'(2) assms(2) by (simp add: spawn_core_def)
qed

lemma execute_file_ready:
  assumes "platform_laws (platform_of (host M)) base J" and "well_behaved (host M) (interp M) n bytes"
    and "n < guest_fuel M" and "kernel_ready base J k" and "n + r \<le> cap_room (k_caps k)"
  shows "ends (hangs (platform_of (host M)) J) (\<lambda>k'. kernel_ready base J k' \<and> r \<le> cap_room (k_caps k'))
    (execute_file M pid name bytes k)"
proof -
  obtain k1 where k1: "k_log (''  Executing '' @ name @ ''...'') k = Done k1" "kernel_ready base J k1"
    using k_log_ready [OF assms(4)] by blast
  have exec: "ends (hangs (platform_of (host M)) J) (\<lambda>(q, k'). kernel_ready base J k' \<and> r \<le> cap_room (k_caps k'))
      (execute_module (host M) (interp M) (guest_fuel M) bytes pid k1)"
    using assms(5) k_log_Done [OF k1(1)] by (intro execute_module_ready [OF assms(1-3) k1(2)]) simp
  have log: "ends (hangs (platform_of (host M)) J) (\<lambda>k'. kernel_ready base J k' \<and> r \<le> cap_room (k_caps k')) (k_log line k2)"
    if "kernel_ready base J k2" "r \<le> cap_room (k_caps k2)" for line k2
    using k_log_ready [OF that(1), of line] k_log_Done [of line k2] that(2) by auto
  show ?thesis
    unfolding execute_file_def k1(1) obind.simps
    by (rule ends_obind [OF exec]) (auto split: sum.split intro!: log)
qed

text \<open>The files to be executed: read-only, and modules that end where their name says they are modules.\<close>

definition executable ::
    "('h, 'i, 's, 'k, 'm, 'w, 'pt, 'g, 'd) machine \<Rightarrow> nat \<Rightarrow> ('i, 's, 'h) kernel \<Rightarrow> string \<Rightarrow> bool" where
  "executable M n k name \<longleftrightarrow>
     (\<exists>f. holds_file f name k \<and> (ends_with name ''.wasm'' \<longrightarrow> well_behaved (host M) (interp M) n (vf_data f)))"

lemma executable_log: "k_log line k = Done k' \<Longrightarrow> executable M n k name \<Longrightarrow> executable M n k' name"
  using k_log_Done [of line k k'] by (simp add: executable_def holds_file_def)

lemma executable_run: "execute_file M pid name bytes k = Done k' \<Longrightarrow> executable M n k name' \<Longrightarrow> executable M n k' name'"
  unfolding executable_def by (blast intro: execute_file_holds)

lemma execute_files_ready:
  assumes "platform_laws (platform_of (host M)) base J" and "n < guest_fuel M"
    and "\<forall>name \<in> set files. executable M n k name" and "kernel_ready base J k"
    and "n * length files \<le> cap_room (k_caps k)" and "c + length files < 2 ^ 31"
  shows "ends (hangs (platform_of (host M)) J) (\<lambda>(c', k'). kernel_ready base J k') (execute_files M current_file pid files c k)"
  using assms(3-6)
proof (induction files arbitrary: c k)
  case (Cons name files)
  let ?b = "hangs (platform_of (host M)) J"
  have tail: "ends ?b (\<lambda>(c', k'). kernel_ready base J k') (execute_files M current_file pid files d k')"
    if "kernel_ready base J k'" "n * length files \<le> cap_room (k_caps k')" "d \<le> Suc c"
      "\<forall>name \<in> set files. executable M n k' name" for d k'
    using that Cons.prems(4) by (intro Cons.IH) simp_all
  show ?case
  proof (cases "ends_with name ''.wasm''")
    case True
    obtain k1 where k1: "k_log (''[EXEC] Found Wasm Agent: '' @ name) k = Done k1" "kernel_ready base J k1"
      using k_log_ready [OF Cons.prems(2)] by blast
    have exe: "executable M n k1 name" "\<forall>name \<in> set files. executable M n k1 name"
      using executable_log [OF k1(1)] Cons.prems(1) by auto
    obtain f where "holds_file f name k1" and wb: "well_behaved (host M) (interp M) n (vf_data f)"
      using exe(1) True unfolding executable_def by (elim exE conjE) simp
    note f = current_file_holds [OF this(1)] wb
    have room: "n + n * length files \<le> cap_room (k_caps k1)" using Cons.prems(3) k_log_Done [OF k1(1)] by simp
    have inc: "i32_inc c = Done (Suc c)" using Cons.prems(4) by (simp add: i32_inc_def)
    have run: "ends ?b (\<lambda>k2. (kernel_ready base J k2 \<and> n * length files \<le> cap_room (k_caps k2)) \<and>
        (\<forall>name \<in> set files. executable M n k2 name)) (execute_file M pid name (vf_data f) k1)"
      using execute_file_ready [OF assms(1) f(2) assms(2) k1(2) room, of pid name] executable_run exe(2)
      by (fastforce simp: ends_cases)
    show ?thesis
      unfolding execute_files.simps k1(1) if_P [OF True] obind.simps f(1) option.case
      by (rule ends_obind [OF run]) (simp add: inc tail)
  next
    case False
    then show ?thesis using tail [of k c] Cons.prems by simp
  qed
qed simp

text \<open>The modules of the archive end after at most \<open>n\<close> host calls.\<close>

definition modules_end :: "('h, 'i, 's, 'k, 'm, 'w, 'pt, 'g, 'd) machine \<Rightarrow> nat \<Rightarrow> bool" where
  "modules_end M n \<longleftrightarrow>
     (\<forall>con count fs con' f. initramfs_init (archive M) [] con = Done (Inr count, fs, con') \<longrightarrow> f \<in> set fs \<longrightarrow>
        ends_with (vf_name f) ''.wasm'' \<longrightarrow> well_behaved (host M) (interp M) n (vf_data f))"

lemma file_at_listed: "n \<in> set (list_files fs) \<Longrightarrow> \<exists>f. file_at fs n = Some f \<and> f \<in> set fs \<and> vf_name f = n"
  by (induction fs) (auto simp: list_files_def file_at_Cons)

lemma modules_executable:
  assumes "modules_end M n" and "initramfs_init (archive M) [] con = Done (Inr count, k_vfs k, con')"
    and "list_all vf_read_only (k_vfs k)"
  shows "\<forall>name \<in> set (list_files (k_vfs k)). executable M n k name"
proof
  fix name assume "name \<in> set (list_files (k_vfs k))"
  then obtain f where f: "file_at (k_vfs k) name = Some f" "f \<in> set (k_vfs k)" "vf_name f = name" using file_at_listed by blast
  then have "holds_file f name k"
    using assms(3) all_read_only_vfs_ok by (auto simp: holds_file_def list_all_iff)
  then show "executable M n k name" using assms(1,2) f unfolding modules_end_def executable_def by blast
qed

lemma run_wasm_demo_ready:
  assumes "platform_laws (platform_of (host M)) base J" and "modules_end M n"
    and "n < guest_fuel M" and "archive M \<noteq> []" and "length (archive M) < 2 ^ 31"
    and "kernel_ready base J k" and "k_vfs k = []" and "n * length (archive M) + 2 \<le> cap_room (k_caps k)"
    and "0 < agent_room (k_registry k)"
  shows "ends (hangs (platform_of (host M)) J) (kernel_ready base J) (run_wasm_demo M k)"
proof -
  have len: "length (archive M) \<le> isize_max" using assms(5) by (simp add: isize_max_def)
  obtain k1 where k1: "k_logs [[], rule_line, title_line, rule_line, [], ''[SETUP] Initializing Wasm Runtime...'',
      ''[SETUP] Parsing Initramfs...''] k = Done k1" "kernel_ready base J k1" "k_caps k1 = k_caps k"
      "k_registry k1 = k_registry k" "k_vfs k1 = []"
    using k_logs_ready [OF assms(6)] assms(7) by auto
  obtain k2 con con' where k2: "mount_archive M k1 = Done k2" "kernel_ready base J k2" "k_caps k2 = k_caps k1"
      "k_registry k2 = k_registry k1" "length (k_vfs k2) \<le> length (archive M)" "list_all vf_read_only (k_vfs k2)"
      "initramfs_init (archive M) [] con = Done (Inr (length (k_vfs k2)), k_vfs k2, con')"
    using mount_archive_ready [OF k1(2,5) assms(4) len] by (elim exE conjE)
  obtain k3 where k3: "k_log ''[SETUP] Spawning OpenClaw Core Agent...'' k2 = Done k3" "kernel_ready base J k3"
    using k_log_ready [OF k2(2)] by blast
  note log3 = k_log_Done [OF k3(1)]
  obtain pid k4 where k4: "spawn_core k3 = Done (pid, k4)" "kernel_ready base J k4"
      "n * length (archive M) \<le> cap_room (k_caps k4)" "k_vfs k4 = k_vfs k3"
    using spawn_core_ready [OF k3(2), of "n * length (archive M)"] assms(8,9) k1(3,4) k2(3,4) log3 by auto
  obtain k5 where k5: "k_log (''  Agent '' @ [CHR 0x27] @ ''openclaw_core'' @ [CHR 0x27] @ '' created with PID: '' @ dec pid) k4 = Done k5"
      "kernel_ready base J k5"
    using k_log_ready [OF k4(2)] by blast
  note log5 = k_log_Done [OF k5(1)]
  have vfs: "k_vfs k5 = k_vfs k2" using k4(4) log3 log5 by simp
  then have files: "length (list_files (k_vfs k5)) \<le> length (archive M)" using k2(5) by (simp add: list_files_def)
  then have "n * length (list_files (k_vfs k5)) \<le> n * length (archive M)" by simp
  from le_trans [OF this k4(3)] have room: "n * length (list_files (k_vfs k5)) \<le> cap_room (k_caps k5)" using log5 by simp
  have exe: "\<forall>name \<in> set (list_files (k_vfs k5)). executable M n k5 name"
    using modules_executable [OF assms(2), of con _ k5 con'] k2(6,7) by (simp add: vfs)
  have run: "ends (hangs (platform_of (host M)) J) (\<lambda>(c, k'). kernel_ready base J k')
      (execute_files M current_file pid (list_files (k_vfs k5)) 0 k5)"
    using files assms(5) by (intro execute_files_ready [OF assms(1,3) exe k5(2) room]) simp
  have rest: "ends b (kernel_ready base J)
      (obind (if c = 0 then k_log ''[WARN] No .wasm files found in the VFS.'' k6 else Done k6) (\<lambda>k. k_logs lines k))"
    if k6: "kernel_ready base J k6" for b c lines and k6 :: "('b, 'c, 'a) kernel"
  proof -
    obtain k7 where "(if c = 0 then k_log ''[WARN] No .wasm files found in the VFS.'' k6 else Done k6) = Done k7" "kernel_ready base J k7"
      using k_log_ready [OF k6, of "''[WARN] No .wasm files found in the VFS.''"] k6 by (cases "c = 0") auto
    then show ?thesis using k_logs_ready [of base J k7 lines] by auto
  qed
  show ?thesis
    unfolding run_wasm_demo_def k1(1) k2(1) k3(1) k4(1) k5(1) obind.simps split_conv
    by (rule ends_obind [OF run]) (auto intro!: rest)
qed

end
