(* ===== verification/Boot_Properties.thy ===== *)
theory Boot_Properties
  imports Kernel_Main Sandbox_Properties
begin

text \<open>
  The boot sequence as a whole: from the statics, through heap, devices, archive and agents, to the final
  halt. The laws of the card and of the IP stack at start-up are stated next to the theorems that rely on
  them.
\<close>

section \<open>The network card comes up\<close>

text \<open>The reset bit reads as clear after at most \<open>n\<close> reads.\<close>

fun reset_within :: "'h ports \<Rightarrow> u16 \<Rightarrow> nat \<Rightarrow> 'h \<Rightarrow> bool" where
  "reset_within P port 0 hw = False"
| "reset_within P port (Suc n) hw = (let (v, hw) = inb P port hw in v AND 0x10 = 0 \<or> reset_within P port n hw)"

text \<open>The card finishes a reset while the driver waits, and starts to fill the ring at offset 0 when it
  is enabled.\<close>

definition card_starts :: "('h, 'i, 's, 'k) platform \<Rightarrow> u16 \<Rightarrow> (usize \<Rightarrow> 'h \<Rightarrow> bool) \<Rightarrow> bool" where
  "card_starts pf base J \<longleftrightarrow>
     (\<forall>hw. reset_within (ports pf) (base + REG_CMD) (patience pf) (outb (ports pf) (base + REG_CMD) 0x10 hw)) \<and>
     (\<forall>hw. J 0 (outb (ports pf) (base + REG_CMD) 0x0C hw))"

text \<open>A new interface has room for one address and one route.\<close>

definition stack_configures :: "('i, 's, 'k) smoltcp \<Rightarrow> bool" where
  "stack_configures S \<longleftrightarrow>
     (\<forall>mac seed caps t addr n. \<exists>i. push_ip_addr S addr n (iface_new S mac seed caps t) = Some i \<and>
        (\<forall>gw. add_default_route S gw i \<noteq> None))"

text \<open>The card's registers and buffers: its base port, and buffers in the window of physical memory.\<close>

definition dma_ok :: "('h, 'i, 's, 'k, 'm, 'w, 'pt, 'g, 'd) machine \<Rightarrow> u16 \<Rightarrow> pci_device \<Rightarrow> bool" where
  "dma_ok M base dev \<longleftrightarrow>
     ucast (bar0 dev AND NOT 3) = base \<and> boot_offset M \<le> fst (dma_alloc M dev) \<and> length (snd (dma_alloc M dev)) = 4 \<and>
     list_all (\<lambda>b. boot_offset M \<le> buf_ptr b \<and> length (buf_bytes b) = TX_BUFFER_SIZE) (snd (dma_alloc M dev))"

lemma await_reset_Done:
  assumes "word_add base REG_CMD = Done port" and "reset_within P port n hw"
  shows "\<exists>hw'. await_reset P base n hw = Done hw'"
  using assms(2) by (induction n arbitrary: hw) (auto simp: assms(1) split: prod.splits)

lemma read_mac_bytes_Done:
  assumes "unat base \<le> 0xFF00" and "\<forall>i \<in> set is. unat i \<le> 5"
  shows "\<exists>bs hw'. read_mac_bytes P base is hw = Done (bs, hw')"
  using assms(2)
proof (induction "is" arbitrary: hw)
  case (Cons i "is")
  have "unat (REG_MAC05 :: u16) = 0" by (simp add: reg_defs)
  then have "word_add base REG_MAC05 = Done base" using port_Done(1) [of base REG_MAC05] assms(1) by (simp add: reg_defs)
  moreover have "word_add base i = Done (base + i)" using port_Done(1) [of base i] assms(1) Cons.prems by simp
  moreover obtain b hw1 where "inb P (base + i) hw = (b, hw1)" by fastforce
  moreover obtain bs hw2 where "read_mac_bytes P base is hw1 = Done (bs, hw2)" using Cons by fastforce
  ultimately show ?case by simp
qed simp

lemma rtl8139_new_Done:
  assumes "unat base \<le> 0xFF00"
  shows "\<exists>bs hw' con'. rtl8139_new P rx txs base offset hw con =
      Done (\<lparr>io_base = base, mac = bs, phys_mem_offset = offset, rx_buffer = rx, tx_buffers = txs, tx_index = 0, rx_offset = 0\<rparr>,
        hw', con') \<and> vga con' = vga con"
proof -
  have "\<forall>i \<in> set [0, 1, 2, 3, 4, 5 :: u16]. unat i \<le> 5" by simp
  from read_mac_bytes_Done [OF assms this, of P hw] obtain bs hw' where
    "read_mac_bytes P base [0, 1, 2, 3, 4, 5] hw = Done (bs, hw')" by (elim exE)
  then show ?thesis
    unfolding rtl8139_new_def read_mac_def rtl8139.simps by (simp del: read_mac_bytes.simps append.simps)
qed

lemma rtl8139_init_Done:
  assumes "unat (io_base dev) \<le> 0xFF00" and "phys_mem_offset dev \<le> rx_buffer dev" and "card_starts pf (io_base dev) J"
  shows "\<exists>hw' con'. rtl8139_init (ports pf) (patience pf) dev hw con = Done (hw', con') \<and> J 0 hw' \<and> vga con' = vga con"
proof -
  have port: "word_add (io_base dev) reg = Done (io_base dev + reg)" if "unat reg \<le> 0x52" for reg
    using assms(1) that by (intro port_Done) simp
  have regs: "unat REG_CONFIG1 \<le> 0x52" "unat REG_CMD \<le> 0x52" "unat REG_RBSTART \<le> 0x52" "unat REG_RCR \<le> 0x52"
    by (simp_all add: reg_defs)
  have "reset_within (ports pf) (io_base dev + REG_CMD) (patience pf) (outb (ports pf) (io_base dev + REG_CMD) 0x10 h)"
    and start: "J 0 (outb (ports pf) (io_base dev + REG_CMD) 0x0C h)" for h
    using assms(3) by (simp_all add: card_starts_def)
  from await_reset_Done [OF port [OF regs(2)] this(1)] obtain hw1 where
    "await_reset (ports pf) (io_base dev) (patience pf)
      (outb (ports pf) (io_base dev + REG_CMD) 0x10 (outb (ports pf) (io_base dev + REG_CONFIG1) 0 hw)) = Done hw1"
    by metis
  then show ?thesis
    by (simp add: rtl8139_init_def out8_def out32_def port regs virt_to_phys_Done assms(2) start)
qed

lemma start_network_ready:
  assumes "card_starts (platform_of (host M)) base J" and "stack_configures (stack (platform_of (host M)))"
    and "unat base \<le> 0xFF00" and "dma_ok M base dev" and "kernel_ok k"
  shows "\<exists>k'. start_network M dev k = Done k' \<and> kernel_ready base J k' \<and> k_net k' \<noteq> None \<and>
    k_caps k' = k_caps k \<and> k_registry k' = k_registry k \<and> k_vfs k' = k_vfs k"
proof -
  let ?pf = "platform_of (host M)" and ?S = "stack (platform_of (host M))"
  obtain rx txs where d: "dma_alloc M dev = (rx, txs)" by fastforce
  note dma = assms(4) [unfolded dma_ok_def d fst_conv snd_conv]
  obtain bs hw1 con1 where c1: "rtl8139_new (ports ?pf) rx txs base (boot_offset M) (k_hw k) (k_console k) =
      Done (\<lparr>io_base = base, mac = bs, phys_mem_offset = boot_offset M, rx_buffer = rx, tx_buffers = txs,
        tx_index = 0, rx_offset = 0\<rparr>, hw1, con1)" (is "_ = Done (?rtl, _, _)") and "vga con1 = vga (k_console k)"
    using rtl8139_new_Done [OF assms(3), of "ports ?pf" rx txs "boot_offset M" "k_hw k" "k_console k"] by (elim exE conjE)
  obtain hw2 con2 where c2: "rtl8139_init (ports ?pf) (patience ?pf) ?rtl hw1 con1 = Done (hw2, con2)" "J 0 hw2" "vga con2 = vga con1"
    using rtl8139_init_Done [of ?rtl ?pf J hw1 con1] assms(1,3) dma by auto
  obtain i j where ij: "push_ip_addr ?S [10, 0, 2, 15] 24 (iface_new ?S bs 0x12345678 capabilities 0) = Some i"
    "add_default_route ?S [10, 0, 2, 2] i = Some j"
    using assms(2) unfolding stack_configures_def by (metis option.exhaust)
  have "device_ok ?rtl" using dma assms(3) by (simp add: device_ok_def)
  then have "net_ok J base \<lparr>iface = j, sockets = socket_set_new ?S, device = ?rtl\<rparr> hw2" using c2(2) by (simp add: net_ok_def)
  then show ?thesis
    using assms(5) c1 c2 dma \<open>vga con1 = _\<close>
    by (simp add: start_network_def d net_init_def ij kernel_ready_def kernel_ok_def net_ready_def console_ok_def)
qed

lemma probe_device_ready:
  assumes "card_starts (platform_of (host M)) base J" and "stack_configures (stack (platform_of (host M)))"
    and "unat base \<le> 0xFF00" and "is_rtl8139 dev \<Longrightarrow> dma_ok M base dev" and "kernel_ready base J k"
  shows "\<exists>k'. probe_device M dev k = Done k' \<and> kernel_ready base J k' \<and>
    (k_net k' \<noteq> None \<longleftrightarrow> k_net k \<noteq> None \<or> is_rtl8139 dev) \<and>
    k_caps k' = k_caps k \<and> k_registry k' = k_registry k \<and> k_vfs k' = k_vfs k"
proof -
  obtain k1 where k1: "k_log (device_line dev) k = Done k1" "kernel_ready base J k1" using k_log_ready [OF assms(5)] by blast
  note log1 = k_log_Done [OF k1(1)]
  show ?thesis
  proof (cases "is_rtl8139 dev")
    case True
    obtain k2 where k2: "k_log ''  [NET] Initializing RTL8139 Driver...'' k1 = Done k2" "kernel_ready base J k2"
      using k_log_ready [OF k1(2)] by blast
    have "kernel_ok k2" using k2(2) by (simp add: kernel_ready_def)
    from start_network_ready [OF assms(1-3) assms(4) [OF True] this] k_log_Done [OF k2(1)] log1 True
    show ?thesis unfolding probe_device_def k1(1) obind.simps by (simp only: if_True k2(1) obind.simps) auto
  next
    case False
    then show ?thesis using k1 log1 by (simp add: probe_device_def)
  qed
qed

lemma probe_devices_ready:
  assumes "card_starts (platform_of (host M)) base J" and "stack_configures (stack (platform_of (host M)))"
    and "unat base \<le> 0xFF00" and "\<forall>d \<in> set devices. is_rtl8139 d \<longrightarrow> dma_ok M base d" and "kernel_ready base J k"
  shows "\<exists>k'. for_each (probe_device M) devices k = Done k' \<and> kernel_ready base J k' \<and>
    (k_net k' \<noteq> None \<longleftrightarrow> k_net k \<noteq> None \<or> (\<exists>d \<in> set devices. is_rtl8139 d)) \<and>
    k_caps k' = k_caps k \<and> k_registry k' = k_registry k \<and> k_vfs k' = k_vfs k"
  using assms(4,5)
proof (induction devices arbitrary: k)
  case (Cons dev devices)
  obtain k1 where k1: "probe_device M dev k = Done k1" "kernel_ready base J k1"
    "k_net k1 \<noteq> None \<longleftrightarrow> k_net k \<noteq> None \<or> is_rtl8139 dev"
    "k_caps k1 = k_caps k" "k_registry k1 = k_registry k" "k_vfs k1 = k_vfs k"
    using probe_device_ready [OF assms(1-3) _ Cons.prems(2), of dev] Cons.prems(1) by auto
  have "\<forall>d \<in> set devices. is_rtl8139 d \<longrightarrow> dma_ok M base d" using Cons.prems(1) by simp
  from Cons.IH [OF this k1(2)] k1 show ?case by auto
qed simp

section \<open>The agents neither remove nor install the network\<close>

definition net_present :: "bool \<Rightarrow> ('i, 's, 'h) kernel \<Rightarrow> bool" where
  "net_present b k \<longleftrightarrow> (k_net k \<noteq> None) = b"

lemma net_ops_present:
  "tcp_syn pf ip port k = Done (x, k') \<Longrightarrow> (k_net k' \<noteq> None) = (k_net k \<noteq> None)"
  "kernel_resolve pf domain k = Done (y, k') \<Longrightarrow> (k_net k' \<noteq> None) = (k_net k \<noteq> None)"
  by (auto simp: tcp_syn_def kernel_resolve_def resolve_def obind_Done_iff map_outcome_Done_iff Let_def
      split: option.splits prod.splits if_splits)

interpretation np: host_invariant_grant E any_panic pid "net_present b" for E :: "('h, 'i, 's, 'k, 'm) host_env" and pid b
  unfolding net_present_def
  by unfold_locales
    (auto intro!: op_keeps_partialI simp: map_outcome_Done_iff k_time_frame k_grant_frame dest: net_ops_present)

lemma execute_files_net:
  "execute_files M look pid files c k = Done (c', k') \<Longrightarrow> net_present b k \<Longrightarrow> net_present b k'"
  by (rule execute_files_inv [OF np.host_invariant_grant_axioms]) (auto simp: net_present_def dest: k_log_Done)

lemma k_logs_net: "k_logs lines k = Done k' \<Longrightarrow> k_net k' = k_net k"
  unfolding k_logs_def
  by (induction lines arbitrary: k) (auto simp: obind_Done_iff dest!: k_log_Done)

lemma mount_archive_net:
  assumes "mount_archive M k = Done k'"
  shows "k_net k' = k_net k"
proof -
  obtain r fs con where "initramfs_init (archive M) (k_vfs k) (k_console k) = Done (r, fs, con)"
    using assms by (auto simp: mount_archive_def obind_Done_iff)
  then show ?thesis using assms
    by (cases r) (auto simp: mount_archive_def Let_def obind_Done_iff dest: k_log_Done)
qed

lemma run_wasm_demo_steps:
  assumes "run_wasm_demo M k = Done k'"
  obtains k1 k2 k3 pid k4 k5 c k6 k7 l1 l2 l3 l4 l5 where "k_logs l1 k = Done k1" "mount_archive M k1 = Done k2"
    "k_log l2 k2 = Done k3" "spawn_core k3 = Done (pid, k4)" "k_log l3 k4 = Done k5"
    "execute_files M current_file pid (list_files (k_vfs k5)) 0 k5 = Done (c, k6)"
    "(if c = 0 then k_log l4 k6 else Done k6) = Done k7" "k_logs l5 k7 = Done k'"
  using assms unfolding run_wasm_demo_def obind_Done_iff split_paired_Ex split_conv by (elim exE conjE) (rule that)

lemma run_wasm_demo_net:
  assumes "run_wasm_demo M k = Done k'"
  shows "(k_net k' \<noteq> None) = (k_net k \<noteq> None)"
proof -
  obtain k1 k2 k3 pid k4 k5 c k6 k7 l1 l2 l3 l4 l5 where steps: "k_logs l1 k = Done k1" "mount_archive M k1 = Done k2"
    "k_log l2 k2 = Done k3" "spawn_core k3 = Done (pid, k4)" "k_log l3 k4 = Done k5"
    "execute_files M current_file pid (list_files (k_vfs k5)) 0 k5 = Done (c, k6)"
    "(if c = 0 then k_log l4 k6 else Done k6) = Done k7" "k_logs l5 k7 = Done k'"
    using assms by (rule run_wasm_demo_steps)
  have "k_net k2 = k_net k1" using steps(2) by (rule mount_archive_net)
  moreover have "k_net k4 = k_net k3" using steps(4) by (auto simp: spawn_core_def obind_Done_iff)
  moreover have "net_present (k_net k5 \<noteq> None) k6"
    using execute_files_net [OF steps(6)] by (simp add: net_present_def)
  moreover have "k_net k7 = k_net k6" using steps(7) by (auto split: if_splits dest: k_log_Done)
  ultimately show ?thesis
    using k_logs_net [OF steps(1)] k_logs_net [OF steps(8)] k_log_Done [OF steps(3)] k_log_Done [OF steps(5)]
    by (simp add: net_present_def)
qed

section \<open>Boot\<close>

lemma k_println_ready:
  assumes "kernel_ready base J k"
  shows "\<exists>k'. k_println line k = Done k' \<and> kernel_ready base J k' \<and> k_net k' = k_net k \<and> k_hw k' = k_hw k \<and>
    k_caps k' = k_caps k \<and> k_registry k' = k_registry k \<and> k_vfs k' = k_vfs k"
proof -
  have "console_ok (k_console k)" using assms by (simp add: kernel_ready_def kernel_ok_def)
  then obtain con where "println line (k_console k) = Done con" "console_ok con" using println_total by blast
  then show ?thesis using assms by (simp add: k_println_def kernel_ready_def kernel_ok_def)
qed

text \<open>Without a network the hardware state does not matter for the kernel's well-formedness.\<close>

lemma kernel_ready_no_net: "k_net k = None \<Longrightarrow> kernel_ready base J (k\<lparr>k_hw := hw\<rparr>) = kernel_ready base J k"
  by (simp add: kernel_ready_def kernel_ok_def net_ready_def)

lemma boot_kernel_ready:
  assumes "console_ok con"
  shows "kernel_ready base J (boot_kernel con hw)"
  using assms by (simp add: kernel_ready_def kernel_ok_def net_ready_def boot_kernel_def)

text \<open>Up to the devices: the subsystems are announced, the supervisor's mailbox exists.\<close>

lemma subsystems_ready:
  assumes "kernel_ready base J k" and "k_net k = None"
  shows "\<exists>k1 k2 k3. capability_init k = Done k1 \<and> k_ipc_init k1 = Done k2 \<and> k_log line k2 = Done k3 \<and>
    kernel_ready base J k3 \<and> k_net k3 = None \<and> k_caps k3 = k_caps k \<and> k_registry k3 = k_registry k \<and>
    k_vfs k3 = k_vfs k \<and> k_hw k3 = k_hw k"
proof -
  obtain k1 where k1: "capability_init k = Done k1" "kernel_ready base J k1" "k_net k1 = None" "k_hw k1 = k_hw k"
    "k_caps k1 = k_caps k" "k_registry k1 = k_registry k" "k_vfs k1 = k_vfs k"
    using k_println_ready [OF assms(1)] assms(2) unfolding capability_init_def by (metis (no_types))
  let ?k = "k1\<lparr>k_ipc := ipc_init (k_ipc k1)\<rparr>"
  have ready: "kernel_ready base J ?k" using k1(2) by (simp add: kernel_ready_def kernel_ok_def ipc_ok_init)
  obtain k2 where k2: "k_ipc_init k1 = Done k2" "kernel_ready base J k2" "k_net k2 = k_net ?k" "k_hw k2 = k_hw ?k"
    "k_caps k2 = k_caps ?k" "k_registry k2 = k_registry ?k" "k_vfs k2 = k_vfs ?k"
    using k_println_ready [OF ready] unfolding k_ipc_init_def by (metis (no_types))
  obtain k3 where k3: "k_log line k2 = Done k3" "kernel_ready base J k3" using k_log_ready [OF k2(2)] by blast
  show ?thesis
    using k1 k2 k3 k_log_Done [OF k3(1)]
    by (intro exI [of _ k1] exI [of _ k2] exI [of _ k3] conjI) simp_all
qed

lemma kernel_main_eq:
  assumes "init_cpu (cpu M) (k_hw k) = Done hw0" and "memory_init (offset_table M) (cr3 M) (boot_offset M) = Done mapper"
    and "init_heap (map_to M) (frame_allocator_init (boot_map M)) mapper = Done (Inr q, fa, pt)"
    and "capability_init (k\<lparr>k_hw := hw0\<rparr>) = Done k1" and "k_ipc_init k1 = Done k2"
    and "k_log ''[SETUP] Scanning PCI buses...'' k2 = Done k3"
    and "scan_buses (ports (platform_of (host M))) (k_hw k3) = (devices, hw)"
    and "for_each (probe_device M) devices (k3\<lparr>k_hw := hw\<rparr>) = Done k4"
  shows "kernel_main M k = run_wasm_demo M k4"
  unfolding kernel_main_def Let_def assms(1-3) obind.simps split_conv sum.case assms(4) assms(5) assms(6) assms(7) assms(8) ..

text \<open>What the boot relies on: the card and the IP stack as above, the double-fault
  stack and the page table inside the address space, a mapper and a memory map with frames to spare and no
  heap page mapped yet, an archive that is not empty and below 2 GiB, and modules in it that end after at most \<open>n\<close>
  host calls and name no buffer the allocator cannot serve. Nothing is assumed about how long a poll takes.\<close>

definition machine_laws ::
    "('h, 'i, 's, 'k, 'm, 'w, 'pt, 'g, 'd) machine \<Rightarrow> u16 \<Rightarrow> (usize \<Rightarrow> 'h \<Rightarrow> bool) \<Rightarrow> ('pt \<Rightarrow> nat \<Rightarrow> nat option) \<Rightarrow> nat \<Rightarrow> bool" where
  "machine_laws M base J tr n \<longleftrightarrow>
     platform_laws (platform_of (host M)) base J \<and>
     card_starts (platform_of (host M)) base J \<and> stack_configures (stack (platform_of (host M))) \<and> unat base \<le> 0xFF00 \<and>
     unat (stack_address (cpu M)) + STACK_SIZE < 2 ^ 64 \<and> unat (boot_offset M) + unat (cr3 M) < 2 ^ 64 \<and>
     mapper_laws (map_to M) tr \<and>
     (\<forall>p \<in> set heap_pages. tr (offset_table M (boot_offset M + cr3 M) (boot_offset M)) p = None) \<and>
     8192 \<le> length (usable_frames (boot_map M)) \<and> length (usable_frames (boot_map M)) < usize_bound \<and>
     modules_end M n \<and> n < guest_fuel M \<and>
     archive M \<noteq> [] \<and> length (archive M) < 2 ^ 31 \<and> n * length (archive M) < 2 ^ 63"

lemma machine_lawsD:
  assumes "machine_laws M base J tr n"
  shows "platform_laws (platform_of (host M)) base J" "modules_end M n" "n < guest_fuel M"
    "archive M \<noteq> []" "length (archive M) < 2 ^ 31" "n * length (archive M) < 2 ^ 63"
    "card_starts (platform_of (host M)) base J" "stack_configures (stack (platform_of (host M)))" "unat base \<le> 0xFF00"
    "mapper_laws (map_to M) tr" "length (usable_frames (boot_map M)) < usize_bound"
    "\<forall>p \<in> set heap_pages. tr (offset_table M (boot_offset M + cr3 M) (boot_offset M)) p = None" "8192 \<le> length (usable_frames (boot_map M))"
    "unat (stack_address (cpu M)) + STACK_SIZE < 2 ^ 64" "unat (boot_offset M) + unat (cr3 M) < 2 ^ 64"
  using assms by (simp_all add: machine_laws_def)

lemma kernel_main_ready:
  fixes M :: "('h, 'i, 's, 'k, 'm, 'w, 'pt, 'g, 'd) machine"
  assumes laws: "machine_laws M base J tr n" and con: "console_ok con"
    and cpu: "init_cpu (cpu M) hw = Done hw0"
    and scan: "scan_buses (ports (platform_of (host M))) hw0 = (devices, hw')"
    and dma: "\<forall>d \<in> set devices. is_rtl8139 d \<longrightarrow> dma_ok M base d"
  shows "(\<exists>k. kernel_main M (boot_kernel con hw) = Done k \<and> kernel_ok k \<and>
      (k_net k \<noteq> None \<longleftrightarrow> (\<exists>d \<in> set devices. is_rtl8139 d))) \<or>
    (kernel_main M (boot_kernel con hw) = Panic Hang \<and> (\<exists>d \<in> set devices. is_rtl8139 d) \<and>
      poll_stuck (platform_of (host M)))"
proof -
  note l = machine_lawsD [OF laws]
  let ?b = "boot_kernel con hw :: ('i, 's, 'h) kernel"
  let ?k = "?b\<lparr>k_hw := hw0\<rparr>" and ?pt = "offset_table M (boot_offset M + cr3 M) (boot_offset M)"
  have net: "k_net ?k = None" "k_hw ?k = hw0" "k_caps ?k = initial_caps" "k_registry ?k = new_registry" "k_vfs ?k = []"
    by (simp_all add: boot_kernel_def)
  have ready: "kernel_ready base J ?k"
    using boot_kernel_ready [OF con] by (simp add: kernel_ready_no_net boot_kernel_def)
  have table: "memory_init (offset_table M) (cr3 M) (boot_offset M) = Done ?pt"
    using l(15) by (simp add: memory_init_def active_level_4_table_def word_add_def)
  obtain fa pt where heap: "init_heap (map_to M) (frame_allocator_init (boot_map M)) ?pt
      = Done (Inr (HEAP_START, HEAP_SIZE), fa, pt)"
    using init_heap_Done [OF l(10-13)] by (elim exE conjE)
  obtain k1 k2 k3 where k3: "capability_init ?k = Done k1" "k_ipc_init k1 = Done k2"
      "k_log ''[SETUP] Scanning PCI buses...'' k2 = Done k3" "kernel_ready base J k3" "k_net k3 = None"
      "k_caps k3 = initial_caps" "k_registry k3 = new_registry" "k_vfs k3 = []" "k_hw k3 = hw0"
    using subsystems_ready [OF ready net(1), unfolded net, of "''[SETUP] Scanning PCI buses...''"] by (elim exE conjE)
  have "kernel_ready base J (k3\<lparr>k_hw := hw'\<rparr>)" using k3(4,5) by (simp add: kernel_ready_no_net)
  then obtain k4 where k4: "for_each (probe_device M) devices (k3\<lparr>k_hw := hw'\<rparr>) = Done k4" "kernel_ready base J k4"
      "k_net k4 \<noteq> None \<longleftrightarrow> (\<exists>d \<in> set devices. is_rtl8139 d)" "k_caps k4 = initial_caps" "k_registry k4 = new_registry" "k_vfs k4 = []"
    using probe_devices_ready [OF l(7-9) dma, of "k3\<lparr>k_hw := hw'\<rparr>"] k3(5-8) by auto
  have main: "kernel_main M (boot_kernel con hw) = run_wasm_demo M k4"
    using kernel_main_eq [OF _ table heap k3(1-3) _ k4(1)] scan cpu k3(9) by (simp add: boot_kernel_def)
  have room: "n * length (archive M) + 2 \<le> cap_room (k_caps k4)" "0 < agent_room (k_registry k4)"
    using l(6) by (simp_all add: k4(4,5) cap_room_def initial_caps_def agent_room_def new_registry_def)
  have run: "ends (hangs (platform_of (host M)) K) (kernel_ready base K) (run_wasm_demo M k4)"
    if "platform_laws (platform_of (host M)) base K" "kernel_ready base K k4" for K
    using run_wasm_demo_ready [OF that(1) l(2-5) that(2) k4(6) room] .
  show ?thesis
  proof (cases "run_wasm_demo M k4")
    case (Done k)
    then have "kernel_ready base J k" using run [OF l(1) k4(2)] by simp
    then show ?thesis using Done main k4(3) run_wasm_demo_net [OF Done] by (auto simp: kernel_ready_def)
  next
    case (Panic p)
    have "k_net k4 \<noteq> None"
    proof
      assume "k_net k4 = None"
      then have "kernel_ready base (\<lambda>_ _. False) k4" using k4(2) by (simp add: kernel_ready_offline kernel_ready_def)
      from run [OF platform_laws_offline [OF l(1)] this] Panic show False by simp
    qed
    then show ?thesis using run [OF l(1) k4(2)] Panic main k4(3) by (simp add: hangs_def)
  qed
qed

section \<open>A concrete machine\<close>

text \<open>The host bridge of the sample configuration space with its RTL8139, a boot archive with one module, an
  interpreter whose modules ask for the network and send a packet, an allocator that serves what the heap can hold,
  and 128 MiB of usable memory.\<close>

definition boot_platform :: "(u32, unit, (nat \<times> u8 list) list, u8 list) platform" where
  "boot_platform = \<lparr>ports = sample_bridge sample_config, ring = (\<lambda>_. replicate RX_BUFFER_SIZE 0), stack = sample_stack, patience = 3\<rparr>"

definition sample_wasmi :: "(unit, u8 list) wasmi" where
  "sample_wasmi =
     \<lparr>module_new = (\<lambda>_. Inr ()), instantiate = (\<lambda>_. Inr (Some (replicate 8 0))),
      start_section = (\<lambda>_ _. GuestReturn (Some (replicate 8 0))),
      has_func = (\<lambda>_ f. f = ''_start''), signature_error = (\<lambda>_ _. None),
      func_body = (\<lambda>_ _ hist. if hist = [] then GuestCall (Some (replicate 8 0)) (RequestCapability 0 0 0)
                     else if length hist = 1 then GuestCall (Some (replicate 8 0)) (TcpRequest 0 80 4 4)
                     else GuestReturn (Some (replicate 8 0))),
      show_trap = (\<lambda>s. s)\<rparr>"

definition sample_x86 :: "(nat, unit, u32) x86" where
  "sample_x86 =
     \<lparr>gdt_new = 1, add_entry = (\<lambda>_ n. (of_nat (8 * n), n + 1)), kernel_code_segment = (), kernel_data_segment = (),
      tss_segment = (\<lambda>_. ()), gdt_load = (\<lambda>_ hw. hw), set_cs = (\<lambda>_ hw. hw), set_ds = (\<lambda>_ hw. hw), load_tss = (\<lambda>_ hw. hw),
      idt_load = (\<lambda>hw. hw), pics_initialize = (\<lambda>hw. hw), interrupts_enable = (\<lambda>hw. hw), stack_address = 0x200000\<rparr>"

definition sample_machine ::
    "(u32, unit, (nat \<times> u8 list) list, u8 list, u8 list, unit, nat \<Rightarrow> nat option, nat, unit) machine" where
  "sample_machine =
     \<lparr>host = \<lparr>platform_of = boot_platform, wmem = list_memory, alloc_ok = (\<lambda>n. n \<le> HEAP_SIZE)\<rparr>, interp = sample_wasmi, guest_fuel = 3,
      cpu = sample_x86, map_to = sample_map_to, offset_table = (\<lambda>_ _. Map.empty), cr3 = 0x1000,
      boot_map = [\<lparr>region_start = 0x100000, region_end = 0x8100000, region_kind = Usable\<rparr>], boot_offset = 0,
      dma_alloc = (\<lambda>_. (0x1000, replicate 4 \<lparr>buf_ptr = 0x8000, buf_bytes = replicate 2048 0\<rparr>)),
      archive = tar_bytes (sample_entry\<lparr>te_name := ''a.wasm''\<rparr>) @ replicate 1024 0\<rparr>"

definition sample_order :: "usize \<Rightarrow> u32 \<Rightarrow> bool" where
  "sample_order off hw \<longleftrightarrow> off < 8192"

lemma sample_archive: "length (archive sample_machine) = 2048"
proof -
  have "tar_entry_ok (sample_entry\<lparr>te_name := ''a.wasm''\<rparr>)" by (simp add: sample_entry_def tar_entry_ok_def as_bytes_def)
  then show ?thesis using length_tar_bytes [of "sample_entry\<lparr>te_name := ''a.wasm''\<rparr>"]
    by (simp add: sample_machine_def sample_entry_def)
qed

lemma boot_platform_laws: "platform_laws boot_platform 0xC000 sample_order"
proof -
  have "card_follows boot_platform 0xC000 sample_order"
    by (auto simp: card_follows_def boot_platform_def sample_order_def sample_bridge_def frame_length_zero next_offset_def Let_def)
  then show ?thesis
    using sample_frames_within_mtu sample_recv_fits by (simp add: platform_laws_def boot_platform_def sample_bridge_def sample_order_def)
qed

lemma sample_machine_laws: "machine_laws sample_machine 0xC000 sample_order (\<lambda>pt. pt) 2"
proof -
  have "card_starts boot_platform 0xC000 sample_order"
    by (simp add: card_starts_def boot_platform_def sample_bridge_def sample_order_def numeral_eq_Suc)
  moreover have "stack_configures sample_stack" by (simp add: stack_configures_def sample_stack_def)
  moreover have "mapper_laws sample_map_to (\<lambda>pt. pt)" by (simp add: mapper_laws_def sample_map_to_def)
  moreover have "length (usable_frames (boot_map sample_machine)) = 32768"
    by (simp add: sample_machine_def usable_frames_def) (simp add: step_addresses_def)
  moreover have "modules_end sample_machine 2"
    by (auto simp: modules_end_def well_behaved_def sample_machine_def sample_wasmi_def served_def HEAP_SIZE_def)
  moreover have "archive sample_machine \<noteq> []" using sample_archive by auto
  ultimately show ?thesis
    using boot_platform_laws sample_archive
    by (simp add: machine_laws_def usize_bound_def) (simp add: sample_machine_def boot_platform_def sample_x86_def STACK_SIZE_def)
qed

text \<open>The network card of the sample configuration space is the only function there is.\<close>

lemma sample_visible: "visible sample_config b s f \<longleftrightarrow> b = 0 \<and> s = 3 \<and> f = 0"
  by (auto simp: visible_def vendor_at_def sample_config_def)

lemma sample_devices:
  "fst (scan_buses (sample_bridge sample_config) hw) = map (\<lambda>(b, s, f). device_at sample_config b s f) (functions_of sample_config)"
  "(b, s, f) \<in> set (functions_of sample_config) \<longleftrightarrow> b = 0 \<and> s = 3 \<and> f = 0"
  using scan_buses_list [OF sample_bridge_ok] by (auto simp: functions_of_iff sample_visible)

lemma sample_machine_ports: "ports (platform_of (host sample_machine)) = sample_bridge sample_config"
  by (simp add: sample_machine_def boot_platform_def)

lemma sample_machine_polls: "\<not> poll_stuck (platform_of (host sample_machine))"
  by (rule sample_poll_not_stuck) (simp_all add: sample_machine_def boot_platform_def)

lemma sample_machine_up: "init_cpu (cpu sample_machine) 0 = Done 0"
  by (simp add: sample_machine_def sample_x86_def init_cpu_def gdt_init_def GDT_def TSS_eq STACK_SIZE_def)

lemma sample_machine_dma:
  "\<forall>d \<in> set (fst (scan_buses (ports (platform_of (host sample_machine))) 0)). is_rtl8139 d \<longrightarrow> dma_ok sample_machine 0xC000 d"
  unfolding sample_machine_ports sample_devices(1)
  by (auto simp: sample_devices(2) dma_ok_def device_at_def sample_config_def sample_machine_def TX_BUFFER_SIZE_def list_all_iff)

section \<open>Properties\<close>

text \<open>C4: The kernel comes up. From the statics of a fresh machine whose card, processor tables and mapper behave, whose
  memory map has room for the heap, whose archive is not empty and whose modules end after a bounded number of
  host calls and ask for no buffer the allocator cannot serve, the boot sequence never panics: heap, subsystems,
  PCI scan, network card, archive, core agent and every module. It runs to the final halt, the kernel is then
  well-formed, and it has a network exactly if the scan found an RTL8139; or it hangs, and then the scan found an RTL8139 and a
  poll of the interface does not end.\<close>

theorem kernel_main_halts:
  assumes "machine_laws M base J tr n" and "console_ok con" and "init_cpu (cpu M) hw = Done hw0"
    and "\<forall>d \<in> set (fst (scan_buses (ports (platform_of (host M))) hw0)). is_rtl8139 d \<longrightarrow> dma_ok M base d"
  shows "(\<exists>k. kernel_main M (boot_kernel con hw) = Done k \<and> kernel_ok k \<and>
      (k_net k \<noteq> None \<longleftrightarrow> (\<exists>d \<in> set (fst (scan_buses (ports (platform_of (host M))) hw0)). is_rtl8139 d))) \<or>
    (kernel_main M (boot_kernel con hw) = Panic Hang \<and>
      (\<exists>d \<in> set (fst (scan_buses (ports (platform_of (host M))) hw0)). is_rtl8139 d) \<and>
      poll_stuck (platform_of (host M)))"
  using kernel_main_ready [OF assms(1,2,3) prod.collapse [symmetric] assms(4)] .

theorem kernel_main_halts_witness:
  "\<exists>k. kernel_main sample_machine (boot_kernel blank_console 0) = Done k \<and> kernel_ok k \<and> k_net k \<noteq> None"
proof -
  let ?devices = "fst (scan_buses (ports (platform_of (host sample_machine))) 0)"
  have "device_at sample_config 0 3 0 \<in> set ?devices"
    unfolding sample_machine_ports sample_devices(1) set_map by (rule image_eqI [of _ _ "(0, 3, 0)"]) (simp_all add: sample_devices(2))
  moreover have "is_rtl8139 (device_at sample_config 0 3 0)"
    by (simp add: is_rtl8139_def device_at_def vendor_at_def sample_config_def)
  ultimately show ?thesis
    using kernel_main_halts [OF sample_machine_laws console_ok_blank sample_machine_up sample_machine_dma] sample_machine_polls
    by blast
qed

text \<open>C6: Agents cannot change each other's code. When the file system holds what the loader mounted from the
  archive, the loop that executes the modules, which looks every file up only when its turn comes,
  behaves exactly as a loop that reads all files from a snapshot taken before the first module ran: whatever
  the modules executed earlier have done, with whatever capabilities they obtained.\<close>

theorem modules_come_from_archive:
  assumes "initramfs_init (archive M) [] con = Done (Inr count, k_vfs k, con')" and "length (archive M) \<le> isize_max"
  shows "execute_files M current_file pid (list_files (k_vfs k)) c k =
    execute_files M (\<lambda>_. current_file k) pid (list_files (k_vfs k)) c k"
proof (rule execute_files_snapshot, rule ballI)
  fix n assume "n \<in> set (list_files (k_vfs k))"
  then obtain f where f: "file_at (k_vfs k) n = Some f" "f \<in> set (k_vfs k)"
    using file_at_listed by blast
  have "archive M \<noteq> []" using assms(1) by (auto simp: initramfs_init_def)
  then have ro: "list_all vf_read_only (k_vfs k)"
    using initramfs_init_mounts [OF assms(2), of "[]" con] assms(1) from_archive_read_only by auto
  then have "holds_file f n k"
    using f all_read_only_vfs_ok by (simp add: holds_file_def list_all_iff)
  then show "\<exists>f. holds_file f n k \<and> holds_file f n k" by blast
qed

definition sample_mounted :: "(unit, (nat \<times> u8 list) list, u32) kernel" where
  "sample_mounted = (boot_kernel blank_console 0)\<lparr>k_vfs := [mounted_file (sample_entry\<lparr>te_name := ''a.wasm''\<rparr>)]\<rparr>"

theorem modules_come_from_archive_witness:
  "(\<exists>con'. initramfs_init (archive sample_machine) [] blank_console = Done (Inr 1, k_vfs sample_mounted, con')) \<and>
   execute_files sample_machine current_file 1 (list_files (k_vfs sample_mounted)) 0 sample_mounted =
     execute_files sample_machine (\<lambda>_. current_file sample_mounted) 1 (list_files (k_vfs sample_mounted)) 0 sample_mounted"
proof -
  let ?e = "sample_entry\<lparr>te_name := ''a.wasm''\<rparr>"
  have "list_all tar_entry_ok [?e]" by (simp add: sample_entry_def tar_entry_ok_def as_bytes_def)
  moreover have a: "concat (map tar_bytes [?e]) @ replicate 1024 0 = archive sample_machine"
    by (simp add: sample_machine_def)
  moreover have reg: "filter is_regular [?e] = [?e]" by (simp add: sample_entry_def is_regular_def)
  moreover have len: "length (archive sample_machine) \<le> isize_max" by (simp add: sample_archive isize_max_def)
  ultimately obtain con' where con': "initramfs_init (archive sample_machine) [] blank_console = Done (Inr 1, k_vfs sample_mounted, con')"
    using initramfs_init_encoded [of "[?e]" 1024 "[]" blank_console, unfolded a reg] by (auto simp: sample_mounted_def)
  from modules_come_from_archive [OF this len] con' show ?thesis by blast
qed

end
