(* ===== verification/Boot_Isolation.thy ===== *)
theory Boot_Isolation
  imports Boot_Properties
begin

text \<open>
  What a boot leaves behind, whatever the modules of the archive did: the invariants of the sandbox carried
  through the loop that executes the modules, from the statics to the final halt. Nothing is assumed of
  the hardware, the card or the IP stack; a machine on which they misbehave may panic or hang instead.
\<close>

section \<open>Steps that leave the subsystems alone\<close>

definition keeps_stores :: "('i, 's, 'h) kernel \<Rightarrow> ('i, 's, 'h) kernel \<Rightarrow> bool" where
  "keeps_stores k k' \<longleftrightarrow> k_caps k' = k_caps k \<and> k_registry k' = k_registry k \<and> k_ipc k' = k_ipc k \<and>
     k_vfs k' = k_vfs k \<and> (console_ok (k_console k) \<longrightarrow> console_ok (k_console k'))"

lemma keeps_stores_refl [simp]: "keeps_stores k k"
  by (simp add: keeps_stores_def)

lemma keeps_stores_trans: "keeps_stores k k1 \<Longrightarrow> keeps_stores k1 k2 \<Longrightarrow> keeps_stores k k2"
  by (simp add: keeps_stores_def)

lemma keeps_stores_hw: "keeps_stores k (k\<lparr>k_hw := hw\<rparr>)"
  by (simp add: keeps_stores_def)

lemma keeps_stores_for_each:
  assumes "\<And>x k k'. body x k = Done k' \<Longrightarrow> keeps_stores k k'" and "for_each body xs k = Done k'"
  shows "keeps_stores k k'"
  using assms(2) by (induction xs arbitrary: k) (auto simp: obind_Done_iff intro: keeps_stores_trans assms(1))

lemma k_println_keeps: "k_println line k = Done k' \<Longrightarrow> keeps_stores k k'"
  using println_total [of "k_console k" line] by (auto simp: k_println_def map_outcome_Done_iff keeps_stores_def)

lemma k_log_keeps: "k_log line k = Done k' \<Longrightarrow> keeps_stores k k'"
  using log_line_total [of "k_console k" line] by (auto simp: k_log_def map_outcome_Done_iff keeps_stores_def)

lemma k_logs_keeps: "k_logs lines k = Done k' \<Longrightarrow> keeps_stores k k'"
  unfolding k_logs_def using k_log_keeps by (rule keeps_stores_for_each)

lemma start_network_keeps:
  assumes "start_network M dev k = Done k'"
  shows "keeps_stores k k'"
proof -
  let ?pf = "platform_of (host M)"
  obtain rx txs rtl hw con hw2 con2 net con3 where
      new: "rtl8139_new (ports ?pf) rx txs (ucast (bar0 dev AND NOT 3)) (boot_offset M) (k_hw k) (k_console k) = Done (rtl, hw, con)"
    and init: "rtl8139_init (ports ?pf) (patience ?pf) rtl hw con = Done (hw2, con2)"
    and net: "net_init ?pf rtl con2 = Done (net, con3)" and k': "k' = k\<lparr>k_net := Some net, k_hw := hw2, k_console := con3\<rparr>"
    using assms by (cases "dma_alloc M dev") (auto simp: start_network_def Let_def obind_Done_iff)
  have "console_ok con = console_ok (k_console k)"
    using new by (auto simp: rtl8139_new_def read_mac_def obind_Done_iff map_outcome_Done_iff Let_def split: prod.splits)
  moreover have "console_ok con2 = console_ok con"
    using init by (auto simp: rtl8139_init_def obind_Done_iff)
  moreover have "console_ok con3 = console_ok con2"
    using net by (auto simp: net_init_def Let_def split: option.splits)
  ultimately show ?thesis by (simp add: keeps_stores_def k')
qed

lemma probe_device_keeps: "probe_device M dev k = Done k' \<Longrightarrow> keeps_stores k k'"
  unfolding probe_device_def
  by (auto simp: obind_Done_iff split: if_splits intro: keeps_stores_trans dest!: k_log_keeps start_network_keeps)

text \<open>The state in which \<^verbatim>\<open>run_wasm_demo\<close> starts.\<close>

lemma kernel_main_Done:
  assumes "kernel_main M (boot_kernel con hw) = Done k" and "console_ok con"
  obtains k0 where "run_wasm_demo M k0 = Done k" "k_caps k0 = initial_caps" "k_registry k0 = new_registry"
    "k_ipc k0 = ipc_init Map.empty" "k_vfs k0 = []" "console_ok (k_console k0)"
proof -
  obtain hw0 k1 k2 k3 hw1 devices k4 where s: "capability_init ((boot_kernel con hw)\<lparr>k_hw := hw0\<rparr>) = Done k1"
    "k_ipc_init k1 = Done k2" "k_log ''[SETUP] Scanning PCI buses...'' k2 = Done k3"
    "for_each (probe_device M) devices (k3\<lparr>k_hw := hw1\<rparr>) = Done k4" "run_wasm_demo M k4 = Done k"
    using assms(1) unfolding kernel_main_def Let_def
    by (auto simp: obind_Done_iff case_prod_beta split: sum.split_asm) (metis sum.exhaust surj_pair)
  have "keeps_stores (boot_kernel con hw) k1"
    using keeps_stores_trans [OF keeps_stores_hw k_println_keeps [OF s(1) [unfolded capability_init_def]]] .
  moreover have "keeps_stores (k1\<lparr>k_ipc := ipc_init (k_ipc k1)\<rparr>) k2"
    using s(2) k_println_keeps by (auto simp: k_ipc_init_def)
  moreover have "keeps_stores k2 k4"
    using keeps_stores_trans [OF k_log_keeps [OF s(3)] keeps_stores_trans [OF keeps_stores_hw keeps_stores_for_each [OF probe_device_keeps s(4)]]] .
  ultimately show thesis
    using that [OF s(5)] assms(2) by (simp add: keeps_stores_def boot_kernel_def)
qed

lemma mount_archive_Done:
  assumes "mount_archive M k = Done k'" and "k_vfs k = []" and "length (archive M) \<le> isize_max"
  obtains count fs con' where "initramfs_init (archive M) [] (k_console k) = Done (Inr count, fs, con')"
    "list_all vf_read_only fs" "k_vfs k' = fs" "k_caps k' = k_caps k" "k_registry k' = k_registry k" "k_ipc k' = k_ipc k"
    "console_ok (k_console k) \<Longrightarrow> console_ok (k_console k')"
proof -
  have "archive M \<noteq> []" using assms(1) by (auto simp: mount_archive_def initramfs_init_def obind_Done_iff)
  then obtain new con where new: "initramfs_init (archive M) [] (k_console k) = Done (Inr (length new), new, con)"
    "vga con = vga (k_console k)" "list_all (from_archive (archive M)) new"
    using initramfs_init_mounts [OF assms(3), of "[]" "k_console k"] by auto
  have "k_log (''  Successfully mounted '' @ fmt_dec (length new) @ '' files from Initramfs.'')
      (k\<lparr>k_vfs := new, k_console := con\<rparr>) = Done k'"
    using assms(1) unfolding mount_archive_def assms(2) new(1) obind.simps split_conv Let_def sum.case .
  from k_log_keeps [OF this] show thesis
    using that [OF new(1) from_archive_read_only [OF new(3)]] new(2) by (simp add: keeps_stores_def console_ok_def)
qed

section \<open>The core agent\<close>

definition core_agent :: agent where
  "core_agent = \<lparr>ag_id = AgentId 1, ag_name = ''openclaw_core'', ag_capabilities = [CapabilityId 1, CapabilityId 2],
     ag_state = Running\<rparr>"

text \<open>The state in which the modules start: the archive is mounted, the core agent exists as agent 1 and holds
  capabilities 1 and 2.\<close>

definition agents_start :: "vfs \<Rightarrow> ('i, 's, 'h) kernel \<Rightarrow> bool" where
  "agents_start fs k \<longleftrightarrow> kernel_ok k \<and> k_vfs k = fs \<and> k_ipc k = ipc_init Map.empty \<and>
     cap_store (k_caps k) = [CapabilityId 1 \<mapsto> Spawn 10, CapabilityId 2 \<mapsto> Network] \<and>
     agents (k_registry k) = [AgentId 1 \<mapsto> core_agent]"

lemma spawn_core_start:
  assumes "spawn_core k = Done (pid, k')" and "k_caps k = initial_caps" and "k_registry k = new_registry"
    and "k_ipc k = ipc_init Map.empty" and "list_all vf_read_only (k_vfs k)" and "console_ok (k_console k)"
  shows "pid = 1 \<and> agents_start (k_vfs k) k'"
proof -
  obtain i cs j cs' a reg where c: "create_capability (Spawn 10) initial_caps = Done (i, cs)" "create_capability Network cs = Done (j, cs')"
    "spawn_agent ''openclaw_core'' [i, j] new_registry = Done (a, reg)" "pid = agent_pid a" "k' = k\<lparr>k_caps := cs', k_registry := reg\<rparr>"
    using assms(1) by (auto simp: spawn_core_def assms(2,3) obind_Done_iff)
  have "caps_ok cs'" "registry_ok reg"
    using caps_ok_create [OF caps_ok_create [OF _ c(1)] c(2)] registry_ok_spawn [OF _ c(3)] by simp_all
  moreover have cs: "cap_store cs' = [CapabilityId 1 \<mapsto> Spawn 10, CapabilityId 2 \<mapsto> Network]" "i = CapabilityId 1" "j = CapabilityId 2"
    using c(1,2) by (auto simp: create_capability_def initial_caps_def word_add_def Let_def)
  moreover have "pid = 1" "agents reg = [AgentId 1 \<mapsto> core_agent]"
    using c(3,4) cs(2,3)
    by (auto simp: spawn_agent_def new_registry_def core_agent_def word_add_def Let_def agent_pid_def split: if_splits)
  moreover have "ipc_ok (ipc_init Map.empty)" by (rule ipc_ok_init) (simp add: ipc_ok_def)
  ultimately show ?thesis
    using assms(4-6) all_read_only_vfs_ok by (simp add: agents_start_def kernel_ok_def c(5))
qed

lemma kernel_ok_keeps: "keeps_stores k k' \<Longrightarrow> kernel_ok k \<Longrightarrow> kernel_ok k'"
  by (simp add: keeps_stores_def kernel_ok_def)

lemma agents_start_keeps: "keeps_stores k k' \<Longrightarrow> agents_start fs k \<Longrightarrow> agents_start fs k'"
  using kernel_ok_keeps [of k k'] by (simp add: agents_start_def keeps_stores_def)

lemma isolated_keeps: "keeps_stores k k' \<Longrightarrow> isolated pid k0 k \<Longrightarrow> isolated pid k0 k'"
  using kernel_ok_keeps [of k k'] by (simp add: isolated_def keeps_stores_def)

lemma holds_file_keeps: "keeps_stores k k' \<Longrightarrow> holds_file f n k \<Longrightarrow> holds_file f n k'"
  by (simp add: holds_file_def keeps_stores_def)

text \<open>The agent that runs keeps its record, except that capabilities are appended to its list.\<close>

definition own_record :: "u64 \<Rightarrow> agent \<Rightarrow> ('i, 's, 'h) kernel \<Rightarrow> bool" where
  "own_record pid a k \<longleftrightarrow>
     (\<exists>more. agents (k_registry k) (AgentId pid) = Some (a\<lparr>ag_capabilities := ag_capabilities a @ more\<rparr>))"

lemma own_record_grant: "op_keeps any_panic (own_record pid a) (k_grant cap pid)"
proof (rule op_keeps_partialI)
  fix k x k' assume "own_record pid a k" "k_grant cap pid k = Done (x, k')"
  then obtain more i where "agents (k_registry k) (AgentId pid) = Some (a\<lparr>ag_capabilities := ag_capabilities a @ more\<rparr>)"
    "k_registry k' = grant_capability_to_agent (AgentId pid) i (k_registry k)"
    using k_grant_frame by (fastforce simp: own_record_def)
  then show "own_record pid a k'"
    by (auto simp: own_record_def grant_capability_to_agent_def intro!: exI [of _ "more @ [i]"])
qed

lemma own_record_frame:
  "(\<And>k x k'. F k = Done (x, k') \<Longrightarrow> k_registry k' = k_registry k) \<Longrightarrow> op_keeps any_panic (own_record pid a) F"
  by (rule op_keeps_partialI) (simp add: own_record_def)

interpretation rec: host_invariant_grant E any_panic pid "own_record pid a"
  for E :: "('h, 'i, 's, 'k, 'm) host_env" and pid a
proof
  show "op_keeps any_panic (own_record pid a) (\<lambda>k. map_outcome (\<lambda>con. ((), k\<lparr>k_console := con\<rparr>)) (println line (k_console k)))" for line
    by (rule own_record_frame) (auto simp: map_outcome_Done_iff)
  show "op_keeps any_panic (own_record pid a) (tcp_syn (platform_of E) ip port)" for ip port
    by (rule own_record_frame) (simp add: tcp_syn_frame)
  show "op_keeps any_panic (own_record pid a) (kernel_resolve (platform_of E) domain)" for domain
    by (rule own_record_frame) (simp add: kernel_resolve_frame)
  show "op_keeps any_panic (own_record pid a) (k_time (platform_of E))"
    by (rule own_record_frame) (simp add: k_time_frame)
qed (simp_all add: own_record_grant, simp_all add: own_record_def)

lemma own_record_keeps: "keeps_stores k k' \<Longrightarrow> own_record pid a k \<Longrightarrow> own_record pid a k'"
  by (simp add: own_record_def keeps_stores_def)

text \<open>From there to the halt.\<close>

lemma run_wasm_demo_isolated:
  assumes "run_wasm_demo M k = Done k'" and "k_caps k = initial_caps" and "k_registry k = new_registry"
    and "k_ipc k = ipc_init Map.empty" and "k_vfs k = []" and "console_ok (k_console k)" and "length (archive M) \<le> isize_max"
  obtains con0 count fs con1 k0 where "initramfs_init (archive M) [] con0 = Done (Inr count, fs, con1)"
    "list_all vf_read_only fs" "agents_start fs k0" "isolated 1 k0 k'" "own_record 1 core_agent k'" "\<And>f n. holds_file f n k0 \<Longrightarrow> holds_file f n k'"
proof -
  obtain k1 k2 k3 pid k4 k5 c k6 k7 l1 l2 l3 l4 l5 where steps: "k_logs l1 k = Done k1" "mount_archive M k1 = Done k2"
    "k_log l2 k2 = Done k3" "spawn_core k3 = Done (pid, k4)" "k_log l3 k4 = Done k5"
    "execute_files M current_file pid (list_files (k_vfs k5)) 0 k5 = Done (c, k6)"
    "(if c = 0 then k_log l4 k6 else Done k6) = Done k7" "k_logs l5 k7 = Done k'"
    using assms(1) by (rule run_wasm_demo_steps)
  have k1: "k_vfs k1 = []" "k_caps k1 = initial_caps" "k_registry k1 = new_registry" "k_ipc k1 = ipc_init Map.empty" "console_ok (k_console k1)"
    using k_logs_keeps [OF steps(1)] assms(2-6) by (simp_all add: keeps_stores_def)
  obtain count fs con' where fs: "initramfs_init (archive M) [] (k_console k1) = Done (Inr count, fs, con')" "list_all vf_read_only fs"
    and k2: "k_vfs k2 = fs" "k_caps k2 = initial_caps" "k_registry k2 = new_registry" "k_ipc k2 = ipc_init Map.empty" "console_ok (k_console k2)"
    using mount_archive_Done [OF steps(2) k1(1) assms(7)] k1 by metis
  have "pid = 1 \<and> agents_start (k_vfs k3) k4"
    by (rule spawn_core_start [OF steps(4)]) (use k_log_keeps [OF steps(3)] k2 fs(2) in \<open>simp_all add: keeps_stores_def\<close>)
  then have pid: "pid = 1" and k5: "agents_start fs k5"
    using agents_start_keeps [OF k_log_keeps [OF steps(5)]] k_log_keeps [OF steps(3)] k2(1) by (auto simp: keeps_stores_def)
  have end': "keeps_stores k6 k'"
    using steps(7) keeps_stores_trans [OF k_log_keeps k_logs_keeps [OF steps(8)]] k_logs_keeps [OF steps(8)] by (auto split: if_splits)
  have "isolated 1 k5 k6"
    by (rule execute_files_inv [OF iso.host_invariant_grant_axioms _ steps(6) [unfolded pid]])
      (use k5 in \<open>auto intro: isolated_keeps k_log_keeps isolated_refl simp: agents_start_def\<close>)
  moreover have "own_record 1 core_agent k6"
  proof (rule execute_files_inv [OF rec.host_invariant_grant_axioms _ steps(6) [unfolded pid]])
    show "own_record 1 core_agent k5" using k5 by (simp add: agents_start_def own_record_def exI [of _ "[]"])
  qed (blast intro: own_record_keeps k_log_keeps)
  moreover have "holds_file f n k6" if "holds_file f n k5" for f n
    by (rule execute_files_inv [OF ro.host_invariant_grant_axioms _ steps(6) that]) (blast intro: holds_file_keeps k_log_keeps)
  ultimately show thesis
    using that [OF fs k5] isolated_keeps [OF end'] own_record_keeps [OF end'] holds_file_keeps [OF end'] by blast
qed

section \<open>Reading the invariants at the end\<close>

lemma agents_start_files:
  assumes "agents_start fs k0" and "list_all vf_read_only fs" and "isolated 1 k0 k" and "\<And>f n. holds_file f n k0 \<Longrightarrow> holds_file f n k"
  shows "if n \<in> set (list_files fs) then file_at (k_vfs k) n = file_at fs n
    else case file_at (k_vfs k) n of None \<Rightarrow> True | Some f \<Rightarrow> \<not> vf_read_only f \<and> vf_owner_pid f = 1"
proof (cases "n \<in> set (list_files fs)")
  case True
  then obtain f where f: "file_at fs n = Some f" "f \<in> set fs" using file_at_listed by blast
  then have "holds_file f n k0"
    using assms(1,2) by (auto simp: holds_file_def agents_start_def kernel_ok_def list_all_iff)
  from assms(4) [OF this] f True show ?thesis by (simp add: holds_file_def)
next
  case False
  then have "file_at fs n = None" by (auto simp: file_at_None list_files_def)
  moreover have "owned_or_same 1 (file_at fs n) (file_at (k_vfs k) n)"
    using assms(1,3) unfolding isolated_def agents_start_def by blast
  ultimately show ?thesis using False by (auto simp: owned_or_same_def)
qed

lemma isolated_start:
  assumes "agents_start fs k0" and "isolated 1 k0 k" and "own_record 1 core_agent k"
  shows "kernel_ok k \<and> (\<exists>more. agents (k_registry k) = [AgentId 1 \<mapsto> \<lparr>ag_id = AgentId 1, ag_name = ''openclaw_core'',
      ag_capabilities = [CapabilityId 1, CapabilityId 2] @ more, ag_state = Running\<rparr>]) \<and>
    validate_capability (k_caps k) (CapabilityId 1) = Some (Spawn 10) \<and>
    validate_capability (k_caps k) (CapabilityId 2) = Some Network \<and> dom (k_ipc k) = {KERNEL_SUPERVISOR_PID} \<and>
    list_all (\<lambda>m. sender m = ProcessId 1 \<and> msg_capabilities m = []) (mailbox KERNEL_SUPERVISOR_PID (k_ipc k))"
proof -
  obtain more where "agents (k_registry k) (AgentId 1) = Some (core_agent\<lparr>ag_capabilities := ag_capabilities core_agent @ more\<rparr>)"
    using assms(3) by (auto simp: own_record_def)
  moreover have "agents (k_registry k) j = None" if "j \<noteq> AgentId 1" for j
    using assms(1,2) that by (simp add: isolated_def agents_start_def)
  ultimately have "agents (k_registry k) = [AgentId 1 \<mapsto> \<lparr>ag_id = AgentId 1, ag_name = ''openclaw_core'',
      ag_capabilities = [CapabilityId 1, CapabilityId 2] @ more, ag_state = Running\<rparr>]"
    by (auto simp: fun_eq_iff core_agent_def)
  moreover have "grown 1 (ipc_init Map.empty p) (k_ipc k p)" for p
    using assms by (simp add: isolated_def agents_start_def)
  then have "dom (k_ipc k) = {KERNEL_SUPERVISOR_PID} \<and>
      list_all (\<lambda>m. sender m = ProcessId 1 \<and> msg_capabilities m = []) (mailbox KERNEL_SUPERVISOR_PID (k_ipc k))"
    by (fastforce simp: grown_def ipc_init_def mailbox_def dom_def split: if_splits)
  ultimately show ?thesis
    using assms by (auto simp: isolated_def agents_start_def validate_capability_def)
qed

section \<open>Properties\<close>

text \<open>C5: The boot contains its agents. Whenever the kernel reaches the final halt, whatever the modules of the
  archive did and whatever hardware it runs on: the only agent is the core agent, running under its name and identifier
  1, its capability list starts with capabilities 1 and 2, which still stand for spawning and the network, and what
  follows in the list was granted later, the only mailbox is the supervisor's, all messages in it carry the core agent's identifier and no
  capability, every file of the archive is as the loader mounted it, any other file is writable and owned by the
  core agent, and the kernel is well-formed.\<close>

theorem boot_contains_agents:
  assumes "kernel_main M (boot_kernel con hw) = Done k" and "console_ok con" and "length (archive M) \<le> isize_max"
  shows "\<exists>con0 count fs con1. initramfs_init (archive M) [] con0 = Done (Inr count, fs, con1) \<and> kernel_ok k \<and>
    (\<exists>more. agents (k_registry k) = [AgentId 1 \<mapsto> \<lparr>ag_id = AgentId 1, ag_name = ''openclaw_core'',
       ag_capabilities = [CapabilityId 1, CapabilityId 2] @ more, ag_state = Running\<rparr>]) \<and>
    validate_capability (k_caps k) (CapabilityId 1) = Some (Spawn 10) \<and>
    validate_capability (k_caps k) (CapabilityId 2) = Some Network \<and>
    dom (k_ipc k) = {KERNEL_SUPERVISOR_PID} \<and>
    list_all (\<lambda>m. sender m = ProcessId 1 \<and> msg_capabilities m = []) (mailbox KERNEL_SUPERVISOR_PID (k_ipc k)) \<and>
    (\<forall>n. if n \<in> set (list_files fs) then file_at (k_vfs k) n = file_at fs n
      else case file_at (k_vfs k) n of None \<Rightarrow> True | Some f \<Rightarrow> \<not> vf_read_only f \<and> vf_owner_pid f = 1)"
proof -
  obtain k1 where k1: "run_wasm_demo M k1 = Done k" "k_caps k1 = initial_caps" "k_registry k1 = new_registry"
    "k_ipc k1 = ipc_init Map.empty" "k_vfs k1 = []" "console_ok (k_console k1)"
    using assms(1,2) by (rule kernel_main_Done)
  obtain con0 count fs con1 k0 where fs: "initramfs_init (archive M) [] con0 = Done (Inr count, fs, con1)" "list_all vf_read_only fs"
    and start: "agents_start fs k0" and iso: "isolated 1 k0 k" and own: "own_record 1 core_agent k" and ro: "\<And>f n. holds_file f n k0 \<Longrightarrow> holds_file f n k"
    using run_wasm_demo_isolated [OF k1 assms(3)] by blast
  have files: "if n \<in> set (list_files fs) then file_at (k_vfs k) n = file_at fs n
      else case file_at (k_vfs k) n of None \<Rightarrow> True | Some f \<Rightarrow> \<not> vf_read_only f \<and> vf_owner_pid f = 1" for n
    using agents_start_files [OF start fs(2) iso ro] .
  show ?thesis
    using fs(1) files isolated_start [OF start iso own] by (intro exI [of _ con0] exI [of _ count] exI [of _ fs] exI [of _ con1]) blast
qed

theorem boot_contains_agents_witness:
  "\<exists>k. kernel_main sample_machine (boot_kernel blank_console 0) = Done k \<and> length (archive sample_machine) \<le> isize_max \<and>
     console_ok blank_console \<and> dom (k_ipc k) = {KERNEL_SUPERVISOR_PID} \<and>
     (\<exists>more. agents (k_registry k) = [AgentId 1 \<mapsto> \<lparr>ag_id = AgentId 1, ag_name = ''openclaw_core'',
        ag_capabilities = [CapabilityId 1, CapabilityId 2] @ more, ag_state = Running\<rparr>])"
proof -
  obtain k where k: "kernel_main sample_machine (boot_kernel blank_console 0) = Done k"
    using kernel_main_ready [OF sample_machine_laws console_ok_blank sample_machine_up prod.collapse [symmetric] sample_machine_dma]
      sample_machine_polls by blast
  have len: "length (archive sample_machine) \<le> isize_max" by (simp add: sample_archive isize_max_def)
  show ?thesis using boot_contains_agents [OF k console_ok_blank len] k len console_ok_blank by blast
qed

end
