(* ===== verification/Spec2Isabelle.thy ===== *)
theory Spec2Isabelle
  imports Serial_Port Preemption Hello_Wasm Boot_Isolation
begin

text \<open>
  A verification of the microkernel: a single-core x86-64 kernel that boots, brings up a heap and a network
  card, mounts a tar archive into a file system in memory and runs the WebAssembly modules found there as
  agents. An agent reaches the kernel only through ten host functions, guarded by capabilities.
  File names below are those of the kernel crate under \<^verbatim>\<open>src/\<close>.

  \<^bold>\<open>The parts and the theories that model them.\<close>

  \<^item> \<open>Kernel_Prelude\<close>, \<open>Rust_Std\<close>: the target's integers (\<^typ>\<open>u8\<close> to \<^typ>\<open>u64\<close> as words, \<^typ>\<open>usize\<close> as a
    number below \<open>2 ^ 64\<close> with the overflow checks written out), the result type \<open>outcome\<close> (\<open>Done\<close>, or a
    \<open>Panic\<close> with its reason), and what the sources use of strings, UTF-8, slices and formatting.
  \<^item> \<open>Capability\<close>, \<open>Task\<close>, \<open>Ipc\<close>, \<open>Vfs\<close> (\<^verbatim>\<open>capability.rs\<close>, \<^verbatim>\<open>task.rs\<close>, \<^verbatim>\<open>ipc.rs\<close>, \<^verbatim>\<open>vfs.rs\<close>): the four
    subsystems, one record for the statics of each and one definition for each function.
  \<^item> \<open>Vga_Buffer\<close>, \<open>Console\<close>, \<open>Serial_Port\<close> (\<^verbatim>\<open>vga_buffer.rs\<close>, \<^verbatim>\<open>serial.rs\<close>): the text screen and the serial
    line; serial output is the string written so far, and \<open>Serial_Port\<close> relates it to the bytes sent to the UART.
  \<^item> \<open>Initramfs\<close> (\<^verbatim>\<open>initramfs.rs\<close>): the tar loader. \<open>Memory\<close> (\<^verbatim>\<open>memory.rs\<close>, \<^verbatim>\<open>allocator.rs\<close>): frames and
    the heap. \<open>Gdt\<close> (\<^verbatim>\<open>gdt.rs\<close>) and \<open>Interrupts\<close> (\<^verbatim>\<open>interrupts.rs\<close>): segments, handlers and the lock the
    keyboard handler shares with the code it interrupts. \<open>Preemption\<close>: the operations of \<^verbatim>\<open>_print\<close> and \<^verbatim>\<open>log!\<close>
    interleaved with interrupts by an arbitrary schedule.
  \<^item> \<open>Ports\<close>, \<open>Clock\<close>, \<open>Pci\<close>, \<open>Rtl8139\<close> (\<^verbatim>\<open>time.rs\<close>, \<^verbatim>\<open>pci.rs\<close>, \<^verbatim>\<open>rtl8139.rs\<close>): code that talks to devices.
    The hardware is a parameter: a state of any type, with a function for each port access.
  \<^item> \<open>Net\<close>, \<open>Dns\<close>, \<open>Resolver\<close> (\<^verbatim>\<open>net.rs\<close>, \<^verbatim>\<open>dns.rs\<close>): the glue to the IP stack, the DNS wire format, and
    \<^verbatim>\<open>resolve\<close>, which uses both.
  \<^item> \<open>Host\<close>, \<open>Wasm_Host\<close>, \<open>Syscall_Errors\<close>, \<open>Wasm_Runtime\<close> (\<^verbatim>\<open>wasm.rs\<close>, \<^verbatim>\<open>syscall_errors.rs\<close>): the kernel
    state (all statics in one record), a monad for host functions (which may return, trap or panic), the ten host
    functions, and \<^verbatim>\<open>execute_module\<close>.
  \<^item> \<open>Kernel_Main\<close> (\<^verbatim>\<open>main.rs\<close>): the boot sequence from \<^verbatim>\<open>kernel_main\<close> to the final halt.
  \<^item> \<open>Hello_Wasm\<close> (\<^verbatim>\<open>hello_wasm/src/lib.rs\<close>): the agent that is shipped, as a guest of the runtime.
  \<^item> \<open>Host_Invariants\<close>, \<open>Sandbox\<close>, \<open>Host_Calls\<close>, \<open>Sandbox_Properties\<close>, \<open>Boot_Properties\<close>,
    \<open>Boot_Isolation\<close>: lemmas and theorems over these models.

  \<^bold>\<open>How the parts interact.\<close> \<^verbatim>\<open>kernel_main\<close> loads the segments, enables interrupts, maps the heap, scans the
  PCI bus and starts the network for an RTL8139 it finds. \<^verbatim>\<open>run_wasm_demo\<close> mounts the archive, creates one
  agent with two capabilities and executes every module whose name ends in \<^verbatim>\<open>.wasm\<close> as that agent, one
  after the other. A module calls host functions; these check the capabilities of the caller and call the
  subsystems. Timer and keyboard interrupts come in between.

  \<^bold>\<open>Interfaces.\<close> Four contracts are locales, with the client's lemmas proved inside and the models as
  instances: \<open>id_registry\<close> (fresh identifiers; instances: capabilities and agents), \<open>bounded_channel\<close>
  (a mailbox), \<open>file_store\<close> (files with a read-only mark) and \<open>host_invariant\<close> with its extensions
  \<open>host_invariant_net\<close> and \<open>host_invariant_grant\<close> (a predicate that every kernel operation behind a host function
  keeps is kept by every host function and every run of an agent, which then panic only in the ways the contract accepts;
  instances: well-formedness, integrity of read-only files, isolation, presence of the network, the agent's own record).

  \<^bold>\<open>What is shown.\<close>

  \<^item> Sandbox: whatever a module does, its effects are within the capabilities it holds or asked for, other
    agents' registry entries and capabilities are untouched, mailboxes only gain messages that carry its
    identifier, read-only files keep their contents, the kernel stays well formed, and every host function returns or traps unless the
    allocator cannot serve a length the guest named or a poll of the network does not end.
    The limits are stated as theorems too: requests for capabilities are always granted, an
    oversized length halts the kernel, and once a frame waits in the card a poll never ends, because the
    driver does not acknowledge frames.
  \<^item> Boot: on a machine that behaves and with modules that end, \<^verbatim>\<open>kernel_main\<close> never panics and reaches the halt, unless
    a poll of the network hangs, and the modules executed are those of
    the archive, whatever earlier modules did. On any machine, a kernel that has reached the halt has one
    agent with its name and at least its two capabilities, one mailbox with that agent's messages, and the archive as mounted.
  \<^item> Preemption: with interrupts at any point of the output, lines and typed keys appear on the screen each in one
    piece and in order; a schedule hangs exactly if a key is completed while the writer's lock is held.
  \<^item> Refinement: mailboxes are bounded queues, the file system is a map from names to files, the screen is a
    scrolling terminal, the serial text is the byte stream of a UART programmed once.
  \<^item> Round trips: tar archives, DNS queries, writing and reading a file through the sandbox.
  \<^item> Devices: the PCI scan finds exactly the visible functions, the receive ring gives back the frame the card
    stored, the transmit ring keeps the last four frames, the heap gets distinct usable frames, the clock
    agrees with the calendar except for the day it misses.
  \<^item> Panics: the parsers of foreign data (archive, DNS) never panic on any input of realistic size, and neither does a
    poll of the network, whatever calls the IP stack makes; where code
    does panic or spin, the exact condition is a theorem (length field of the card, memory checks, keyboard
    handler).

  \<^bold>\<open>Parameters.\<close> Code outside the repository is an argument of the definitions: the interpreter
  (\<open>wasmi\<close>), the IP stack (\<open>smoltcp\<close>), the scancode decoder, the UART driver, page tables and segment descriptors
  (\<open>x86_64\<close>), the allocator's decision whether a request can be served, and the hardware. What the code relies on is
  a named predicate (\<open>machine_laws\<close>, \<open>platform_laws\<close>, \<open>memory_laws\<close>, \<open>mapper_laws\<close>, \<open>handle_laws\<close>,
  \<open>modules_end\<close>), and each theorem that assumes one has a witness on a concrete instance.

  \<^bold>\<open>Fuel.\<close> Three loops depend on a parameter for their end: the wait for the card's reset, a
  poll of the IP stack, and a running module. Each has a fuel argument and ends in \<open>Hang\<close> when it is used up.
  For the reset and for modules the theorems state that any fuel above the bound assumed (\<open>reset_within\<close>,
  \<open>modules_end\<close>) suffices. No bound is assumed for a poll: a theorem shows that its result does not depend on the fuel once there
  is one, and where a poll may hang (\<open>poll_stuck\<close>) the theorems have the hang as one of their cases. A module that
  computes for ever without calling the host is a hang too. Every other loop is structural or has a termination proof.

  \<^bold>\<open>Not modelled.\<close> Locks are modelled
  only where interrupts can meet them: the kernel has one core and no other code takes a lock twice, so elsewhere a lock
  has no effect. Interrupts within the boot sequence: the timer only advances the uptime, and what keys do
  to the output is shown in \<open>Preemption\<close> for any sequence of prints; runs of an agent do have timer steps. The bytes of compiled modules, which the interpreter's parameter gives meaning. Allocations whose size a guest does not name do not fail.
  The one-time construction of the statics by \<^verbatim>\<open>lazy_static\<close>. The final halt loop, which
  is the returned state. The build script \<^verbatim>\<open>build_vfs.py\<close>, whose output is the archive parameter.
\<close>

end
